theory Spec2Isabelle
  imports Complex_Main
begin

section \<open>Frequency-decoupled guidance (nodes.py): a shallow embedding\<close>

text \<open>
  The program is Python over torch tensors. Scalars are modelled in exact arithmetic:
  every Python float and every tensor element is a \<^typ>\<open>real\<close>, so rounding, infinities
  and NaN are outside the model. A tensor keeps its shape, its element type (as a tag:
  a cast changes the tag, not the values) and its elements in row-major order.
  Every exception of the source is a value of type \<open>error\<close>.
\<close>

subsection \<open>Errors, element types, tensors\<close>

datatype error =
    ValueError string
  | IndexError
  | ShapeMismatch
  | RuntimeError

datatype dtype = Float16 | BFloat16 | Float32 | Float64

record tensor =
  shape :: "nat list"
  dtype :: dtype
  data :: "real list"

definition well_formed :: "tensor \<Rightarrow> bool" where
  "well_formed t = (length (data t) = prod_list (shape t))"

definition ebind :: "error + 'a \<Rightarrow> ('a \<Rightarrow> error + 'b) \<Rightarrow> error + 'b" where
  "ebind m f = (case m of Inl e \<Rightarrow> Inl e | Inr v \<Rightarrow> f v)"

text \<open>All multi-indices of a shape, in row-major order, and the offset of one of them.\<close>

definition indices :: "nat list \<Rightarrow> nat list list" where
  "indices s = product_lists (map (\<lambda>n. [0..<n]) s)"

fun ravel :: "nat list \<Rightarrow> nat list \<Rightarrow> nat" where
  "ravel (n # ns) (i # is) = i * prod_list ns + ravel ns is"
| "ravel _ _ = 0"

definition get :: "tensor \<Rightarrow> nat list \<Rightarrow> real" where
  "get t idx = data t ! ravel (shape t) idx"

subsection \<open>torch: type promotion and broadcasting\<close>

fun promote :: "dtype \<Rightarrow> dtype \<Rightarrow> dtype" where
  "promote Float64 _ = Float64"
| "promote _ Float64 = Float64"
| "promote Float32 _ = Float32"
| "promote _ Float32 = Float32"
| "promote Float16 Float16 = Float16"
| "promote BFloat16 BFloat16 = BFloat16"
| "promote _ _ = Float32"

text \<open>torch.result_type for two floating tensors: a zero-dimensional tensor does not
  promote a dimensioned one of the same category.\<close>

definition result_type :: "tensor \<Rightarrow> tensor \<Rightarrow> dtype" where
  "result_type a b =
     (if shape a = [] \<and> shape b \<noteq> [] then dtype b
      else if shape b = [] \<and> shape a \<noteq> [] then dtype a
      else promote (dtype a) (dtype b))"

text \<open>Broadcasting aligns shapes at their last axis; the recursion runs on the reversed
  shapes. Two sizes are compatible when they are equal or one of them is 1.\<close>

fun broadcast_rev :: "nat list \<Rightarrow> nat list \<Rightarrow> nat list option" where
  "broadcast_rev [] ys = Some ys"
| "broadcast_rev (x # xs) [] = Some (x # xs)"
| "broadcast_rev (x # xs) (y # ys) =
     (if x = y \<or> y = 1 then map_option ((#) x) (broadcast_rev xs ys)
      else if x = 1 then map_option ((#) y) (broadcast_rev xs ys)
      else None)"

definition broadcast_shapes :: "nat list \<Rightarrow> nat list \<Rightarrow> nat list option" where
  "broadcast_shapes s t = map_option rev (broadcast_rev (rev s) (rev t))"

text \<open>The index of the element of a tensor of shape \<open>s\<close> that is seen at index \<open>idx\<close>
  of the broadcast result: the trailing axes, with every axis of size 1 read at 0.\<close>

definition bview :: "nat list \<Rightarrow> nat list \<Rightarrow> nat list" where
  "bview s idx = map2 (\<lambda>d i. if d = 1 then 0 else i) s (drop (length idx - length s) idx)"

definition broadcast_op :: "(real \<Rightarrow> real \<Rightarrow> real) \<Rightarrow> tensor \<Rightarrow> tensor \<Rightarrow> error + tensor" where
  "broadcast_op f a b =
     (case broadcast_shapes (shape a) (shape b) of
        None \<Rightarrow> Inl ShapeMismatch
      | Some s \<Rightarrow> Inr \<lparr>shape = s, dtype = result_type a b,
                      data = map (\<lambda>idx. f (get a (bview (shape a) idx)) (get b (bview (shape b) idx)))
                                 (indices s)\<rparr>)"

definition t_add :: "tensor \<Rightarrow> tensor \<Rightarrow> error + tensor" where
  "t_add = broadcast_op (+)"

definition t_sub :: "tensor \<Rightarrow> tensor \<Rightarrow> error + tensor" where
  "t_sub = broadcast_op (-)"

definition t_mul :: "tensor \<Rightarrow> tensor \<Rightarrow> error + tensor" where
  "t_mul = broadcast_op (*)"

definition t_div :: "tensor \<Rightarrow> tensor \<Rightarrow> error + tensor" where
  "t_div = broadcast_op (/)"

text \<open>A Python float times a floating tensor: elementwise, the tensor's element type.\<close>

definition scalar_mul :: "real \<Rightarrow> tensor \<Rightarrow> tensor" where
  "scalar_mul c t = t\<lparr>data := map ((*) c) (data t)\<rparr>"

text \<open>\<open>t.to(d)\<close> and \<open>t.double()\<close>.\<close>

definition to_dtype :: "dtype \<Rightarrow> tensor \<Rightarrow> tensor" where
  "to_dtype d t = t\<lparr>dtype := d\<rparr>"

definition double :: "tensor \<Rightarrow> tensor" where
  "double t = to_dtype Float64 t"

text \<open>A reduction over the axes \<open>[-1, -2, -3]\<close> with \<open>keepdim=True\<close>: the three
  trailing axes become size 1. A tensor of fewer than three axes has no axis -3.\<close>

definition lead_shape :: "nat list \<Rightarrow> nat list" where
  "lead_shape s = take (length s - 3) s"

definition trail_shape :: "nat list \<Rightarrow> nat list" where
  "trail_shape s = drop (length s - 3) s"

definition batch_entry :: "tensor \<Rightarrow> nat list \<Rightarrow> real list" where
  "batch_entry t l = map (\<lambda>tr. get t (l @ tr)) (indices (trail_shape (shape t)))"

definition reduce_last3 :: "(real list \<Rightarrow> real) \<Rightarrow> tensor \<Rightarrow> error + tensor" where
  "reduce_last3 g t =
     (if length (shape t) < 3 then Inl IndexError
      else Inr \<lparr>shape = lead_shape (shape t) @ [1, 1, 1], dtype = dtype t,
                data = map (\<lambda>idx. g (batch_entry t (take (length (shape t) - 3) idx)))
                           (indices (lead_shape (shape t) @ [1, 1, 1]))\<rparr>)"

definition sum_last3 :: "tensor \<Rightarrow> error + tensor" where
  "sum_last3 = reduce_last3 sum_list"

definition norm2 :: "real list \<Rightarrow> real" where
  "norm2 xs = sqrt (sum_list (map (\<lambda>x. x * x) xs))"

definition norm_last3 :: "tensor \<Rightarrow> error + tensor" where
  "norm_last3 = reduce_last3 norm2"

definition clamp_min :: "real \<Rightarrow> tensor \<Rightarrow> tensor" where
  "clamp_min m t = t\<lparr>data := map (max m) (data t)\<rparr>"

text \<open>\<open>torch.nn.functional.normalize(v, dim=[-1, -2, -3])\<close> with its defaults \<open>p = 2\<close>
  and \<open>eps = 1e-12\<close>: \<open>v / v.norm(2, dim, keepdim=True).clamp_min(eps).expand_as(v)\<close>.
  The expansion of the norms to the shape of \<open>v\<close> is the broadcast of the division.\<close>

definition normalize_eps :: real where
  "normalize_eps = 1 / 10 ^ 12"

definition normalize :: "tensor \<Rightarrow> error + tensor" where
  "normalize v = ebind (norm_last3 v) (\<lambda>n. t_div v (clamp_min normalize_eps n))"

subsection \<open>project\<close>

definition project :: "tensor \<Rightarrow> tensor \<Rightarrow> error + (tensor \<times> tensor)" where
  "project v0 v1 =
     (let dt = dtype v0; v0d = double v0; v1d = double v1 in
      ebind (normalize v1d) (\<lambda>v1n.
      ebind (t_mul v0d v1n) (\<lambda>prod.
      ebind (sum_last3 prod) (\<lambda>s.
      ebind (t_mul s v1n) (\<lambda>v0_parallel.
      ebind (t_sub v0d v0_parallel) (\<lambda>v0_orthogonal.
      Inr (to_dtype dt v0_parallel, to_dtype dt v0_orthogonal)))))))"

subsection \<open>Pyramid reconstruction and the guidance mixer\<close>

text \<open>
  \<open>kornia.geometry.transform.build_laplacian_pyramid\<close> and \<open>kornia.geometry.pyrup\<close>
  are library code. They are parameters \<open>blp\<close> and \<open>pyrup\<close> of the functions that call
  them; what the library promises about shapes is stated by the two contracts below.
\<close>

definition build_image_from_pyramid_loop ::
    "(tensor \<Rightarrow> error + tensor) \<Rightarrow> tensor \<Rightarrow> tensor list \<Rightarrow> error + tensor" where
  "build_image_from_pyramid_loop pyrup img finer =
     fold (\<lambda>p acc. ebind acc (\<lambda>im. ebind (pyrup im) (\<lambda>up. t_add up p))) finer (Inr img)"

text \<open>\<open>pyramid[-1]\<close> raises on the empty list; the loop then visits the finer levels
  from index \<open>len - 2\<close> down to 0.\<close>

definition build_image_from_pyramid ::
    "(tensor \<Rightarrow> error + tensor) \<Rightarrow> tensor list \<Rightarrow> error + tensor" where
  "build_image_from_pyramid pyrup pyramid =
     (if pyramid = [] then Inl IndexError
      else build_image_from_pyramid_loop pyrup (last pyramid) (rev (butlast pyramid)))"

text \<open>The slice \<open>p[..., :h, :w]\<close>.\<close>

definition crop_last2 :: "nat \<Rightarrow> nat \<Rightarrow> tensor \<Rightarrow> error + tensor" where
  "crop_last2 h w t =
     (let r = length (shape t) in
      if r < 2 then Inl IndexError
      else
        let s = take (r - 2) (shape t) @ [min h (shape t ! (r - 2)), min w (shape t ! (r - 1))]
        in Inr \<lparr>shape = s, dtype = dtype t, data = map (get t) (indices s)\<rparr>)"

text \<open>The crop of one pyramid level to \<open>level_size\<close>; the two components of
  \<open>original_size\<close> are read first.\<close>

definition crop_to_level :: "nat list \<Rightarrow> nat \<Rightarrow> tensor \<Rightarrow> error + tensor" where
  "crop_to_level original_size idx p =
     (if length original_size < 2 then Inl IndexError
      else crop_last2 ((original_size ! 0) div 2 ^ idx) ((original_size ! 1) div 2 ^ idx) p)"

text \<open>The body of the loop of \<open>laplacian_guidance\<close> for one pyramid level.\<close>

definition guide_level ::
    "nat list \<Rightarrow> nat \<Rightarrow> tensor \<Rightarrow> tensor \<Rightarrow> real \<Rightarrow> real \<Rightarrow> error + tensor" where
  "guide_level original_size idx p_cond0 p_uncond0 scale par_weight =
     ebind (crop_to_level original_size idx p_cond0) (\<lambda>p_cond.
     ebind (crop_to_level original_size idx p_uncond0) (\<lambda>p_uncond.
     ebind (t_sub p_cond p_uncond) (\<lambda>diff0.
     ebind (project diff0 p_cond) (\<lambda>(diff_parallel, diff_orthogonal).
     ebind (t_add (scalar_mul par_weight diff_parallel) diff_orthogonal) (\<lambda>diff.
     t_add p_cond (scalar_mul (scale - 1) diff))))))"

fun guidance_loop ::
    "nat list \<Rightarrow> nat \<Rightarrow> (tensor \<times> tensor \<times> real \<times> real) list \<Rightarrow> error + tensor list" where
  "guidance_loop original_size idx [] = Inr []"
| "guidance_loop original_size idx ((p_cond, p_uncond, scale, par_weight) # rest) =
     ebind (guide_level original_size idx p_cond p_uncond scale par_weight) (\<lambda>p_guided.
     ebind (guidance_loop original_size (Suc idx) rest) (\<lambda>guided.
     Inr (p_guided # guided)))"

definition guided_pyramid ::
    "(tensor \<Rightarrow> nat \<Rightarrow> error + tensor list) \<Rightarrow> tensor \<Rightarrow> tensor \<Rightarrow> real list \<Rightarrow> real list option
      \<Rightarrow> error + tensor list" where
  "guided_pyramid blp pred_cond pred_uncond scales par_weights =
     (let levels = length scales;
          parallel_weights = (case par_weights of None \<Rightarrow> replicate levels 1 | Some ws \<Rightarrow> ws);
          original_size = drop (length (shape pred_cond) - 2) (shape pred_cond)
      in
      ebind (blp pred_cond levels) (\<lambda>pred_cond_pyramid.
      ebind (blp pred_uncond levels) (\<lambda>pred_uncond_pyramid.
      guidance_loop original_size 0
        (zip pred_cond_pyramid (zip pred_uncond_pyramid (zip scales parallel_weights))))))"

definition laplacian_guidance ::
    "(tensor \<Rightarrow> nat \<Rightarrow> error + tensor list) \<Rightarrow> (tensor \<Rightarrow> error + tensor)
      \<Rightarrow> tensor \<Rightarrow> tensor \<Rightarrow> real list \<Rightarrow> real list option \<Rightarrow> error + tensor" where
  "laplacian_guidance blp pyrup pred_cond pred_uncond scales par_weights =
     ebind (guided_pyramid blp pred_cond pred_uncond scales par_weights) (\<lambda>pred_guided_pyramid.
     ebind (build_image_from_pyramid pyrup pred_guided_pyramid) (\<lambda>pred_guided.
     Inr (to_dtype (dtype pred_cond) pred_guided)))"

text \<open>What the callers rely on from the library. \<open>pyrup\<close> accepts a 4-axis tensor with
  non-empty spatial axes and doubles them. \<open>build_laplacian_pyramid\<close> accepts a 4-axis
  tensor and returns as many levels as asked for (one level when asked for none), each a
  well-formed 4-axis tensor of the input's element type whose spatial axes are at least
  the halved sizes of the input (the library may pad the input up to a power of two
  before halving). Both contracts speak of the calls that return; either function may
  raise.\<close>

definition pyrup_contract :: "(tensor \<Rightarrow> error + tensor) \<Rightarrow> bool" where
  "pyrup_contract pyrup =
     (\<forall>t u. pyrup t = Inr u \<longrightarrow>
        (\<exists>b c h w. shape t = [b, c, h, w] \<and> 0 < h \<and> 0 < w \<and> shape u = [b, c, 2 * h, 2 * w]))"

definition blp_contract :: "(tensor \<Rightarrow> nat \<Rightarrow> error + tensor list) \<Rightarrow> bool" where
  "blp_contract blp =
     (\<forall>t n pyr. blp t n = Inr pyr \<longrightarrow>
        length pyr = max 1 n \<and>
        (\<exists>b c h w. shape t = [b, c, h, w] \<and>
           (\<forall>i < max 1 n. well_formed (pyr ! i) \<and> dtype (pyr ! i) = dtype t \<and>
              (\<exists>hi wi. shape (pyr ! i) = [b, c, hi, wi] \<and> h div 2 ^ i \<le> hi \<and> w div 2 ^ i \<le> wi))))"

subsection \<open>create_guidance_scales\<close>

text \<open>\<open>torch.linspace(start, stop, steps).tolist()\<close>: the first half of the points is
  counted up from \<open>start\<close>, the second half down from \<open>stop\<close>; a negative number of
  steps is refused.\<close>

definition linspace :: "real \<Rightarrow> real \<Rightarrow> int \<Rightarrow> error + real list" where
  "linspace start stop steps =
     (if steps < 0 then Inl RuntimeError
      else if steps = 1 then Inr [start]
      else
        let step = (stop - start) / real_of_int (steps - 1) in
        Inr (map (\<lambda>i. if int i < steps div 2 then start + step * real i
                       else stop - step * real_of_int (steps - int i - 1))
                 [0..<nat steps]))"

definition create_guidance_scales :: "real \<Rightarrow> real \<Rightarrow> int \<Rightarrow> string \<Rightarrow> error + real list" where
  "create_guidance_scales high_scale low_scale levels method =
     (if levels = 1 then Inr [high_scale]
      else if method = ''linear'' then linspace high_scale low_scale levels
      else if method = ''cosine'' then
        ebind (linspace 0 1 levels) (\<lambda>t.
        Inr (map (\<lambda>ti. low_scale + (high_scale - low_scale) * (1 / 2) * (1 + cos (ti * pi))) t))
      else Inl (ValueError (''Unknown interpolation method: '' @ method)))"

subsection \<open>FDGNode.patch\<close>

text \<open>\<open>str.split(',')\<close> and \<open>str.strip()\<close> on ASCII text.\<close>

fun split_char :: "char \<Rightarrow> string \<Rightarrow> string list" where
  "split_char c [] = [[]]"
| "split_char c (x # xs) =
     (if x = c then [] # split_char c xs
      else (case split_char c xs of [] \<Rightarrow> [[x]] | w # ws \<Rightarrow> (x # w) # ws))"

definition is_space :: "char \<Rightarrow> bool" where
  "is_space c = (of_char c \<in> {9, 10, 11, 12, 13, 28, 29, 30, 31, 32 :: nat})"

definition strip :: "string \<Rightarrow> string" where
  "strip s = rev (dropWhile is_space (rev (dropWhile is_space s)))"

text \<open>The slice \<open>xs[:n]\<close>; a negative \<open>n\<close> counts from the end.\<close>

definition slice_to :: "int \<Rightarrow> 'a list \<Rightarrow> 'a list" where
  "slice_to n xs = (if 0 \<le> n then take (nat n) xs else take (nat (int (length xs) + n)) xs)"

text \<open>The parsing of the \<open>parallel_weights\<close> text. Python's \<open>float\<close> on a string is the
  parameter \<open>float_of\<close>, with \<open>None\<close> for the ValueError it raises; the bare \<open>except\<close>
  replaces any failure by the default.\<close>

definition parse_parallel_weights :: "(string \<Rightarrow> real option) \<Rightarrow> int \<Rightarrow> string \<Rightarrow> real list" where
  "parse_parallel_weights float_of levels parallel_weights =
     (let parsed = map (\<lambda>w. float_of (strip w)) (split_char CHR '','' parallel_weights);
          parallel_weights_list =
            (if list_all (\<lambda>r. r \<noteq> None) parsed then map the parsed
             else replicate (nat levels) 1)
      in
      if int (length parallel_weights_list) < levels
        then parallel_weights_list @ replicate (nat (levels - int (length parallel_weights_list))) 1
      else if int (length parallel_weights_list) > levels
        then slice_to levels parallel_weights_list
      else parallel_weights_list)"

text \<open>What the closure \<open>fdg_function\<close> captures.\<close>

record fdg_config =
  cfg_guidance_scale_high :: real
  cfg_fdg_steps :: int
  cfg_guidance_scale :: "real list"
  cfg_parallel_weights_list :: "real list"

definition patch ::
    "(string \<Rightarrow> real option) \<Rightarrow> real \<Rightarrow> real \<Rightarrow> int \<Rightarrow> int \<Rightarrow> string \<Rightarrow> string \<Rightarrow> error + fdg_config" where
  "patch float_of guidance_scale_high guidance_scale_low levels fdg_steps interpolation_method
         parallel_weights =
     ebind (create_guidance_scales guidance_scale_high guidance_scale_low levels interpolation_method)
       (\<lambda>guidance_scale.
     Inr \<lparr>cfg_guidance_scale_high = guidance_scale_high, cfg_fdg_steps = fdg_steps,
          cfg_guidance_scale = guidance_scale,
          cfg_parallel_weights_list = parse_parallel_weights float_of levels parallel_weights\<rparr>)"

text \<open>\<open>math.isclose(a, b)\<close> with its defaults \<open>rel_tol = 1e-09\<close>, \<open>abs_tol = 0.0\<close>.\<close>

definition isclose :: "real \<Rightarrow> real \<Rightarrow> bool" where
  "isclose a b = (a = b \<or> \<bar>a - b\<bar> \<le> max (1 / 10 ^ 9 * max \<bar>a\<bar> \<bar>b\<bar>) 0)"

text \<open>Indexing a sequence by a Python integer.\<close>

definition py_index :: "'a list \<Rightarrow> int \<Rightarrow> error + 'a" where
  "py_index xs i =
     (if 0 \<le> i \<and> i < int (length xs) then Inr (xs ! nat i)
      else if i < 0 \<and> - int (length xs) \<le> i then Inr (xs ! nat (int (length xs) + i))
      else Inl IndexError)"

text \<open>The fallback \<open>uncond + (cond - uncond) * cond_scale\<close>.\<close>

definition cfg_blend :: "tensor \<Rightarrow> tensor \<Rightarrow> real \<Rightarrow> error + tensor" where
  "cfg_blend cond uncond cond_scale =
     ebind (t_sub cond uncond) (\<lambda>d. t_add uncond (scalar_mul cond_scale d))"

text \<open>The sampler callback. The entries it reads from \<open>args\<close> are its arguments here
  (the host supplies all of them); \<open>sigma\<close> and the entries of \<open>sample_sigmas\<close> are the
  numbers that \<open>.item()\<close> reads.\<close>

definition fdg_function ::
    "(tensor \<Rightarrow> nat \<Rightarrow> error + tensor list) \<Rightarrow> (tensor \<Rightarrow> error + tensor) \<Rightarrow> fdg_config
      \<Rightarrow> tensor \<Rightarrow> tensor option \<Rightarrow> real \<Rightarrow> real list \<Rightarrow> real \<Rightarrow> error + tensor" where
  "fdg_function blp pyrup cfg cond uncond args_cond_scale sample_sigmas sigma =
     (let cond_scale = (if isclose args_cond_scale 1 then cfg_guidance_scale_high cfg
                        else args_cond_scale);
          step_limits = cfg_fdg_steps cfg
      in
      case uncond of
        None \<Rightarrow> Inr cond
      | Some unc \<Rightarrow>
          (let step_limits = (if step_limits \<ge> int (length sample_sigmas) - 1
                              then int (length sample_sigmas) - 1 else step_limits)
           in
           ebind (py_index sample_sigmas step_limits) (\<lambda>threshold.
             if sigma > threshold
             then laplacian_guidance blp pyrup cond unc (cfg_guidance_scale cfg)
                    (Some (cfg_parallel_weights_list cfg))
             else cfg_blend cond unc cond_scale)))"

subsection \<open>Vocabulary of the properties\<close>

text \<open>The inner product of two vectors, a vector scaled to unit norm, and the cosine
  ease of the schedule, as the specification words them.\<close>

definition dot :: "real list \<Rightarrow> real list \<Rightarrow> real" where
  "dot xs ys = sum_list (map2 (*) xs ys)"

definition unit_vector :: "real list \<Rightarrow> real list" where
  "unit_vector xs = map (\<lambda>x. x / norm2 xs) xs"


text \<open>Closed forms of the elements that \<open>project\<close> computes on two tensors of one shape:
  the element of the normalised \<open>v1\<close> at an index, and the coefficient of a batch entry.\<close>

definition unit_elem :: "tensor \<Rightarrow> nat \<Rightarrow> nat list \<Rightarrow> real" where
  "unit_elem v1 k idx = get v1 idx / max normalize_eps (norm2 (batch_entry v1 (take k idx)))"

definition par_coef :: "tensor \<Rightarrow> tensor \<Rightarrow> nat list \<Rightarrow> real" where
  "par_coef v0 v1 x =
     sum_list (map (\<lambda>tr. get v0 (x @ tr) * unit_elem v1 (length x) (x @ tr))
                   (indices (trail_shape (shape v1))))"

text \<open>A pyramid level of a \<open>b \<times> c \<times> H \<times> W\<close> input that is large enough to be
  cropped to the size of level \<open>k\<close>.\<close>

definition level_fits :: "nat \<Rightarrow> nat \<Rightarrow> nat \<Rightarrow> nat \<Rightarrow> nat \<Rightarrow> tensor \<Rightarrow> bool" where
  "level_fits b c H W k p = (\<exists>h w. shape p = [b, c, h, w] \<and> H div 2 ^ k \<le> h \<and> W div 2 ^ k \<le> w)"

subsection \<open>Instances of the parameters\<close>

text \<open>
  To run the functions on concrete inputs the parameters need values. For the library:
  a pyramid whose level \<open>i\<close> keeps every \<open>2 ^ i\<close>-th row and column, and an upsampling that
  repeats every pixel twice along both spatial axes; both meet the contracts above.
  For \<open>float\<close>: the reading of a plain decimal literal, an optional sign, digits and an
  optional fraction (Python's \<open>float\<close> accepts more than that).
\<close>

definition subsample_pyramid :: "tensor \<Rightarrow> nat \<Rightarrow> error + tensor list" where
  "subsample_pyramid t n =
     (case shape t of
        [b, c, h, w] \<Rightarrow>
          Inr (map (\<lambda>i. \<lparr>shape = [b, c, h div 2 ^ i, w div 2 ^ i], dtype = dtype t,
                         data = map (\<lambda>idx. get t [idx ! 0, idx ! 1, idx ! 2 * 2 ^ i, idx ! 3 * 2 ^ i])
                                    (indices [b, c, h div 2 ^ i, w div 2 ^ i])\<rparr>)
                   [0..<max 1 n])
      | _ \<Rightarrow> Inl RuntimeError)"

definition repeat_pyrup :: "tensor \<Rightarrow> error + tensor" where
  "repeat_pyrup t =
     (case shape t of
        [b, c, h, w] \<Rightarrow>
          if h = 0 \<or> w = 0 then Inl RuntimeError
          else Inr \<lparr>shape = [b, c, 2 * h, 2 * w], dtype = dtype t,
                    data = map (\<lambda>idx. get t [idx ! 0, idx ! 1, idx ! 2 div 2, idx ! 3 div 2])
                               (indices [b, c, 2 * h, 2 * w])\<rparr>
      | _ \<Rightarrow> Inl RuntimeError)"

definition is_digit :: "char \<Rightarrow> bool" where
  "is_digit c = (48 \<le> (of_char c :: nat) \<and> (of_char c :: nat) \<le> 57)"

definition digits_value :: "string \<Rightarrow> nat" where
  "digits_value ds = foldl (\<lambda>acc c. 10 * acc + (of_char c - 48)) 0 ds"

definition unsigned_decimal :: "string \<Rightarrow> real option" where
  "unsigned_decimal s =
     (let ip = takeWhile is_digit s; rest = dropWhile is_digit s in
      case rest of
        [] \<Rightarrow> if ip = [] then None else Some (real (digits_value ip))
      | c # fp \<Rightarrow>
          if c = CHR ''.'' \<and> list_all is_digit fp \<and> (ip \<noteq> [] \<or> fp \<noteq> [])
          then Some (real (digits_value ip) + real (digits_value fp) / 10 ^ length fp)
          else None)"

definition decimal_literal :: "string \<Rightarrow> real option" where
  "decimal_literal s =
     (case s of
        [] \<Rightarrow> None
      | c # r \<Rightarrow> if c = CHR ''-'' then map_option uminus (unsigned_decimal r)
                 else if c = CHR ''+'' then unsigned_decimal r
                 else unsigned_decimal s)"

section \<open>Indices, offsets and elementwise operations\<close>

lemma indices_Nil: "indices [] = [[]]"
  by (simp add: indices_def)

lemma indices_Cons: "indices (n # ns) = concat (map (\<lambda>i. map ((#) i) (indices ns)) [0..<n])"
  by (simp add: indices_def)

lemma length_indices: "length (indices s) = prod_list s"
proof (induction s)
  case Nil
  show ?case by (simp add: indices_Nil)
next
  case (Cons n ns)
  have "length (indices (n # ns)) = sum_list (map (\<lambda>i. prod_list ns) [0..<n])"
    by (simp add: indices_Cons length_concat comp_def Cons.IH)
  also have "\<dots> = n * prod_list ns" by (simp add: sum_list_triv)
  finally show ?case by simp
qed

lemma set_indices: "set (indices s) = {idx. list_all2 (<) idx s}"
proof -
  have "list_all2 (\<lambda>x ys. x \<in> set ys) idx (map (\<lambda>n. [0..<n]) s) = list_all2 (<) idx s" for idx
    by (simp add: list_all2_map2)
  then show ?thesis by (simp add: indices_def product_lists_set)
qed

lemma indices_length: "idx \<in> set (indices s) \<Longrightarrow> length idx = length s"
  by (simp add: set_indices list_all2_lengthD)

lemma indices_append:
  "idx \<in> set (indices (a @ b)) \<longleftrightarrow> (\<exists>x y. idx = x @ y \<and> x \<in> set (indices a) \<and> y \<in> set (indices b))"
proof
  assume "idx \<in> set (indices (a @ b))"
  then have "list_all2 (<) idx (a @ b)" by (simp add: set_indices)
  then obtain x y where "idx = x @ y" "list_all2 (<) x a" "list_all2 (<) y b"
    by (auto simp: list_all2_append2)
  then show "\<exists>x y. idx = x @ y \<and> x \<in> set (indices a) \<and> y \<in> set (indices b)"
    by (auto simp: set_indices)
next
  assume "\<exists>x y. idx = x @ y \<and> x \<in> set (indices a) \<and> y \<in> set (indices b)"
  then obtain x y where "idx = x @ y" "list_all2 (<) x a" "list_all2 (<) y b"
    by (auto simp: set_indices)
  then show "idx \<in> set (indices (a @ b))"
    by (simp add: set_indices list_all2_appendI)
qed

lemma upt_blocks: "concat (map (\<lambda>i. map (\<lambda>k. i * p + k) [0..<p]) [0..<n]) = [0..<n * p]"
proof (induction n)
  case 0
  show ?case by simp
next
  case (Suc n)
  have blk: "map (\<lambda>k. n * p + k) [0..<p] = [n * p..<n * p + p]"
    using map_add_upt[of "n * p" p] by (simp add: add.commute)
  have "concat (map (\<lambda>i. map (\<lambda>k. i * p + k) [0..<p]) [0..<Suc n]) = [0..<n * p] @ [n * p..<n * p + p]"
    using Suc blk by simp
  also have "\<dots> = [0..<n * p + p]" using upt_add_eq_append[of 0 "n * p" p] by simp
  also have "n * p + p = Suc n * p" by simp
  finally show ?case .
qed

lemma ravel_indices: "map (ravel s) (indices s) = [0..<prod_list s]"
proof (induction s)
  case Nil
  show ?case by (simp add: indices_Nil)
next
  case (Cons n ns)
  have "map (ravel (n # ns)) (indices (n # ns))
      = concat (map (\<lambda>i. map (\<lambda>k. i * prod_list ns + k) (map (ravel ns) (indices ns))) [0..<n])"
    by (simp add: indices_Cons map_concat comp_def)
  also have "\<dots> = [0..<n * prod_list ns]" by (simp add: Cons.IH upt_blocks)
  finally show ?case by simp
qed

lemma ravel_less: "idx \<in> set (indices s) \<Longrightarrow> ravel s idx < prod_list s"
proof -
  assume "idx \<in> set (indices s)"
  then have "ravel s idx \<in> set (map (ravel s) (indices s))" by simp
  then show ?thesis by (simp only: ravel_indices) simp
qed

lemma tabulate_nth:
  assumes "idx \<in> set (indices s)"
  shows "map g (indices s) ! ravel s idx = g idx"
proof -
  from assms obtain k where k: "k < length (indices s)" "indices s ! k = idx"
    by (auto simp: in_set_conv_nth)
  have "map (ravel s) (indices s) ! k = k" using k by (simp only: ravel_indices) (simp add: length_indices)
  then have "ravel s idx = k" using k by simp
  then show ?thesis using k by simp
qed

lemma get_tabulate:
  "idx \<in> set (indices s) \<Longrightarrow> get \<lparr>shape = s, dtype = d, data = map g (indices s)\<rparr> idx = g idx"
  by (simp add: get_def tabulate_nth)

lemma data_tabulate: "well_formed t \<Longrightarrow> map (get t) (indices (shape t)) = data t"
proof -
  assume "well_formed t"
  have "map (get t) (indices (shape t)) = map ((!) (data t)) (map (ravel (shape t)) (indices (shape t)))"
    by (simp add: get_def comp_def)
  also have "\<dots> = map ((!) (data t)) [0..<length (data t)]"
    using \<open>well_formed t\<close> by (simp only: ravel_indices well_formed_def)
  finally show ?thesis by (simp add: map_nth)
qed

lemma tensor_data_eqI:
  assumes "well_formed a" "well_formed b" "shape a = shape b"
    and "\<And>idx. idx \<in> set (indices (shape a)) \<Longrightarrow> get a idx = get b idx"
  shows "data a = data b"
proof -
  have "map (get a) (indices (shape a)) = map (get b) (indices (shape b))"
    using assms by (simp cong: map_cong)
  then show ?thesis
    using data_tabulate[OF assms(1)] data_tabulate[OF assms(2)] by simp
qed

lemma bview_id: "idx \<in> set (indices s) \<Longrightarrow> bview s idx = idx"
proof -
  assume a: "idx \<in> set (indices s)"
  then have l: "list_all2 (<) idx s" by (simp add: set_indices)
  then have "map2 (\<lambda>d i. if d = 1 then 0 else i) s idx = idx"
    by (induction idx s rule: list_all2_induct) auto
  then show ?thesis using indices_length[OF a] by (simp add: bview_def)
qed

lemma broadcast_rev_same: "broadcast_rev xs xs = Some xs"
  by (induction xs) auto

lemma broadcast_shapes_same: "broadcast_shapes s s = Some s"
  by (simp add: broadcast_shapes_def broadcast_rev_same)

lemma broadcast_op_same:
  assumes "shape a = shape b"
  shows "broadcast_op f a b = Inr \<lparr>shape = shape a, dtype = result_type a b,
           data = map (\<lambda>idx. f (get a idx) (get b idx)) (indices (shape a))\<rparr>"
  using assms by (simp add: broadcast_op_def broadcast_shapes_same bview_id cong: map_cong)

lemma broadcast_shapes_keepdim_right:
  "broadcast_shapes (l @ [c, h, w]) (l @ [1, 1, 1]) = Some (l @ [c, h, w])"
  by (simp add: broadcast_shapes_def broadcast_rev_same)

lemma broadcast_shapes_keepdim_left:
  "broadcast_shapes (l @ [1, 1, 1]) (l @ [c, h, w]) = Some (l @ [c, h, w])"
  by (auto simp: broadcast_shapes_def broadcast_rev_same)

lemma map2_view_id: "list_all2 (<) x (l :: nat list) \<Longrightarrow> map2 (\<lambda>d i. if d = 1 then 0 else i) l x = x"
  by (induction x l rule: list_all2_induct) auto

lemma bview_keepdim:
  assumes "idx \<in> set (indices (l @ [c, h, w]))"
  shows "bview (l @ [1, 1, 1]) idx = take (length l) idx @ [0, 0, 0]"
proof -
  from assms obtain x y where xy: "idx = x @ y" "x \<in> set (indices l)" "y \<in> set (indices [c, h, w])"
    by (auto simp: indices_append)
  have lx: "length x = length l" using xy by (simp add: indices_length)
  have ly: "length y = 3" using xy indices_length[of y "[c, h, w]"] by simp
  then obtain y1 y2 y3 where y: "y = [y1, y2, y3]"
    by (cases y; simp; cases "tl y"; simp; cases "tl (tl y)"; simp)
  have "list_all2 (<) x l" using xy by (simp add: set_indices)
  then have "map2 (\<lambda>d i. if d = 1 then 0 else i) l x = x" by (rule map2_view_id)
  then show ?thesis using lx y xy by (simp add: bview_def)
qed

lemma take_lead_indices:
  assumes "idx \<in> set (indices (l @ t))"
  shows "take (length l) idx \<in> set (indices l)"
proof -
  from assms obtain x y where "idx = x @ y" "x \<in> set (indices l)"
    by (auto simp: indices_append)
  then show ?thesis by (simp add: indices_length)
qed

lemma keepdim_index: "x \<in> set (indices l) \<Longrightarrow> x @ [0, 0, 0] \<in> set (indices (l @ [1, 1, 1]))"
  by (simp add: set_indices list_all2_appendI)

lemma broadcast_op_keepdim_right:
  assumes "shape a = l @ [c, h, w]" "shape b = l @ [1, 1, 1]"
  shows "broadcast_op f a b = Inr \<lparr>shape = l @ [c, h, w], dtype = result_type a b,
           data = map (\<lambda>idx. f (get a idx) (get b (take (length l) idx @ [0, 0, 0])))
                      (indices (l @ [c, h, w]))\<rparr>"
proof -
  have bs: "broadcast_shapes (shape a) (shape b) = Some (l @ [c, h, w])"
    unfolding assms by (rule broadcast_shapes_keepdim_right)
  have "map (\<lambda>idx. f (get a (bview (shape a) idx)) (get b (bview (shape b) idx))) (indices (l @ [c, h, w]))
      = map (\<lambda>idx. f (get a idx) (get b (take (length l) idx @ [0, 0, 0]))) (indices (l @ [c, h, w]))"
    unfolding assms by (rule map_cong[OF refl]) (simp only: bview_id bview_keepdim)
  then show ?thesis unfolding broadcast_op_def bs by simp
qed

lemma broadcast_op_keepdim_left:
  assumes "shape a = l @ [1, 1, 1]" "shape b = l @ [c, h, w]"
  shows "broadcast_op f a b = Inr \<lparr>shape = l @ [c, h, w], dtype = result_type a b,
           data = map (\<lambda>idx. f (get a (take (length l) idx @ [0, 0, 0])) (get b idx))
                      (indices (l @ [c, h, w]))\<rparr>"
proof -
  have bs: "broadcast_shapes (shape a) (shape b) = Some (l @ [c, h, w])"
    unfolding assms by (rule broadcast_shapes_keepdim_left)
  have "map (\<lambda>idx. f (get a (bview (shape a) idx)) (get b (bview (shape b) idx))) (indices (l @ [c, h, w]))
      = map (\<lambda>idx. f (get a (take (length l) idx @ [0, 0, 0])) (get b idx)) (indices (l @ [c, h, w]))"
    unfolding assms by (rule map_cong[OF refl]) (simp only: bview_id bview_keepdim)
  then show ?thesis unfolding broadcast_op_def bs by simp
qed

lemma reduce_last3_keepdim:
  assumes "shape t = l @ [c, h, w]"
  shows "reduce_last3 g t = Inr \<lparr>shape = l @ [1, 1, 1], dtype = dtype t,
           data = map (\<lambda>idx. g (batch_entry t (take (length l) idx))) (indices (l @ [1, 1, 1]))\<rparr>"
  using assms by (simp add: reduce_last3_def lead_shape_def)

lemma get_to_dtype [simp]: "get (to_dtype d t) = get t"
  by (rule ext) (simp add: get_def to_dtype_def)

lemma get_double [simp]: "get (double t) = get t"
  by (simp add: double_def)

lemma batch_entry_double [simp]: "batch_entry (double t) = batch_entry t"
  by (rule ext) (simp add: batch_entry_def double_def to_dtype_def get_def)

lemma shape_double [simp]: "shape (double t) = shape t"
  by (simp add: double_def to_dtype_def)

lemma dtype_double [simp]: "dtype (double t) = Float64"
  by (simp add: double_def to_dtype_def)

lemma trail_shape_append3 [simp]: "trail_shape (l @ [c, h, w]) = [c, h, w]"
  by (simp add: trail_shape_def)

lemma lead_shape_append3 [simp]: "lead_shape (l @ [c, h, w]) = l"
  by (simp add: lead_shape_def)

lemma result_type_F64:
  "dtype a = Float64 \<Longrightarrow> dtype b = Float64 \<Longrightarrow> result_type a b = Float64"
  by (simp add: result_type_def)

lemma normalize_same_shape:
  assumes "shape v = l @ [c, h, w]" "dtype v = Float64"
  shows "normalize v = Inr \<lparr>shape = l @ [c, h, w], dtype = Float64,
           data = map (unit_elem v (length l)) (indices (l @ [c, h, w]))\<rparr>"
proof -
  let ?n = "\<lparr>shape = l @ [1, 1, 1], dtype = Float64,
             data = map (\<lambda>idx. norm2 (batch_entry v (take (length l) idx))) (indices (l @ [1, 1, 1]))\<rparr>"
  let ?d = "\<lparr>shape = l @ [1, 1, 1], dtype = Float64,
             data = map (\<lambda>idx. max normalize_eps (norm2 (batch_entry v (take (length l) idx))))
                        (indices (l @ [1, 1, 1]))\<rparr>"
  have n: "norm_last3 v = Inr ?n"
    unfolding norm_last3_def using reduce_last3_keepdim[OF assms(1)] assms(2) by simp
  have d: "clamp_min normalize_eps ?n = ?d" by (simp add: clamp_min_def comp_def)
  have getd: "get ?d (take (length l) idx @ [0, 0, 0]) = max normalize_eps (norm2 (batch_entry v (take (length l) idx)))"
    if "idx \<in> set (indices (l @ [c, h, w]))" for idx
  proof -
    have x: "take (length l) idx \<in> set (indices l)" using that by (rule take_lead_indices)
    have "length (take (length l) idx) = length l" using x by (rule indices_length)
    then show ?thesis using get_tabulate[OF keepdim_index[OF x]] by simp
  qed
  have "t_div v ?d = Inr \<lparr>shape = l @ [c, h, w], dtype = result_type v ?d,
           data = map (\<lambda>idx. get v idx / get ?d (take (length l) idx @ [0, 0, 0])) (indices (l @ [c, h, w]))\<rparr>"
    unfolding t_div_def by (rule broadcast_op_keepdim_right) (simp_all add: assms)
  also have "map (\<lambda>idx. get v idx / get ?d (take (length l) idx @ [0, 0, 0])) (indices (l @ [c, h, w]))
       = map (unit_elem v (length l)) (indices (l @ [c, h, w]))"
    by (rule map_cong[OF refl]) (simp only: getd unit_elem_def)
  also have "result_type v ?d = Float64" using assms(2) by (simp add: result_type_F64)
  finally have "t_div v ?d = Inr \<lparr>shape = l @ [c, h, w], dtype = Float64,
           data = map (unit_elem v (length l)) (indices (l @ [c, h, w]))\<rparr>" .
  then show ?thesis by (simp only: normalize_def n ebind_def sum.case d)
qed

lemma project_same_shape:
  assumes s0: "shape v0 = l @ [c, h, w]" and s1: "shape v1 = l @ [c, h, w]"
  shows "project v0 v1 = Inr
           (\<lparr>shape = l @ [c, h, w], dtype = dtype v0,
              data = map (\<lambda>idx. par_coef v0 v1 (take (length l) idx) * unit_elem v1 (length l) idx)
                         (indices (l @ [c, h, w]))\<rparr>,
            \<lparr>shape = l @ [c, h, w], dtype = dtype v0,
              data = map (\<lambda>idx. get v0 idx - par_coef v0 v1 (take (length l) idx) * unit_elem v1 (length l) idx)
                         (indices (l @ [c, h, w]))\<rparr>)"
proof -
  let ?s = "l @ [c, h, w]"
  let ?k = "length l"
  let ?u = "unit_elem v1 ?k"
  let ?v1n = "\<lparr>shape = ?s, dtype = Float64, data = map ?u (indices ?s)\<rparr>"
  let ?prod = "\<lparr>shape = ?s, dtype = Float64, data = map (\<lambda>idx. get v0 idx * ?u idx) (indices ?s)\<rparr>"
  let ?sum = "\<lparr>shape = l @ [1, 1, 1], dtype = Float64,
               data = map (\<lambda>idx. par_coef v0 v1 (take ?k idx)) (indices (l @ [1, 1, 1]))\<rparr>"
  let ?par = "\<lparr>shape = ?s, dtype = Float64,
               data = map (\<lambda>idx. par_coef v0 v1 (take ?k idx) * ?u idx) (indices ?s)\<rparr>"
  let ?orth = "\<lparr>shape = ?s, dtype = Float64,
               data = map (\<lambda>idx. get v0 idx - par_coef v0 v1 (take ?k idx) * ?u idx) (indices ?s)\<rparr>"
  have nrm: "normalize (double v1) = Inr ?v1n"
    using normalize_same_shape[of "double v1" l c h w] s1
    by (simp add: unit_elem_def[abs_def])
  have "t_mul (double v0) ?v1n = Inr \<lparr>shape = ?s, dtype = result_type (double v0) ?v1n,
          data = map (\<lambda>idx. get (double v0) idx * get ?v1n idx) (indices ?s)\<rparr>"
    unfolding t_mul_def using broadcast_op_same[of "double v0" ?v1n "(*)"] s0 by simp
  also have "map (\<lambda>idx. get (double v0) idx * get ?v1n idx) (indices ?s)
           = map (\<lambda>idx. get v0 idx * ?u idx) (indices ?s)"
    by (rule map_cong[OF refl]) (simp add: get_tabulate)
  also have "result_type (double v0) ?v1n = Float64" by (simp add: result_type_F64)
  finally have mul: "t_mul (double v0) ?v1n = Inr ?prod" .
  have be: "batch_entry ?prod x = map (\<lambda>tr. get v0 (x @ tr) * ?u (x @ tr)) (indices [c, h, w])"
    if "x \<in> set (indices l)" for x
  proof -
    have "batch_entry ?prod x = map (\<lambda>tr. get ?prod (x @ tr)) (indices [c, h, w])"
      by (simp add: batch_entry_def)
    also have "\<dots> = map (\<lambda>tr. get v0 (x @ tr) * ?u (x @ tr)) (indices [c, h, w])"
    proof (rule map_cong[OF refl])
      fix tr assume "tr \<in> set (indices [c, h, w])"
      then have "x @ tr \<in> set (indices ?s)" using that by (auto simp: indices_append)
      then show "get ?prod (x @ tr) = get v0 (x @ tr) * ?u (x @ tr)" by (simp add: get_tabulate)
    qed
    finally show ?thesis .
  qed
  have "sum_last3 ?prod = Inr \<lparr>shape = l @ [1, 1, 1], dtype = Float64,
          data = map (\<lambda>idx. sum_list (batch_entry ?prod (take ?k idx))) (indices (l @ [1, 1, 1]))\<rparr>"
    unfolding sum_last3_def using reduce_last3_keepdim[of ?prod l c h w sum_list] by simp
  also have "map (\<lambda>idx. sum_list (batch_entry ?prod (take ?k idx))) (indices (l @ [1, 1, 1]))
           = map (\<lambda>idx. par_coef v0 v1 (take ?k idx)) (indices (l @ [1, 1, 1]))"
  proof (rule map_cong[OF refl])
    fix idx assume "idx \<in> set (indices (l @ [1, 1, 1]))"
    then have x: "take ?k idx \<in> set (indices l)" by (rule take_lead_indices)
    then have "length (take ?k idx) = ?k" by (rule indices_length)
    then show "sum_list (batch_entry ?prod (take ?k idx)) = par_coef v0 v1 (take ?k idx)"
      using be[OF x] s1 by (simp add: par_coef_def)
  qed
  finally have sm: "sum_last3 ?prod = Inr ?sum" .
  have gets: "get ?sum (take ?k idx @ [0, 0, 0]) = par_coef v0 v1 (take ?k idx)"
    if "idx \<in> set (indices ?s)" for idx
  proof -
    have x: "take ?k idx \<in> set (indices l)" using that by (rule take_lead_indices)
    have "length (take ?k idx) = ?k" using x by (rule indices_length)
    then show ?thesis using get_tabulate[OF keepdim_index[OF x]] by simp
  qed
  have "t_mul ?sum ?v1n = Inr \<lparr>shape = ?s, dtype = result_type ?sum ?v1n,
          data = map (\<lambda>idx. get ?sum (take ?k idx @ [0, 0, 0]) * get ?v1n idx) (indices ?s)\<rparr>"
    unfolding t_mul_def by (rule broadcast_op_keepdim_left) simp_all
  also have "map (\<lambda>idx. get ?sum (take ?k idx @ [0, 0, 0]) * get ?v1n idx) (indices ?s)
           = map (\<lambda>idx. par_coef v0 v1 (take ?k idx) * ?u idx) (indices ?s)"
    by (rule map_cong[OF refl]) (simp only: gets get_tabulate)
  also have "result_type ?sum ?v1n = Float64" by (simp add: result_type_F64)
  finally have par: "t_mul ?sum ?v1n = Inr ?par" .
  have "t_sub (double v0) ?par = Inr \<lparr>shape = ?s, dtype = result_type (double v0) ?par,
          data = map (\<lambda>idx. get (double v0) idx - get ?par idx) (indices ?s)\<rparr>"
    unfolding t_sub_def using broadcast_op_same[of "double v0" ?par "(-)"] s0 by simp
  also have "map (\<lambda>idx. get (double v0) idx - get ?par idx) (indices ?s)
           = map (\<lambda>idx. get v0 idx - par_coef v0 v1 (take ?k idx) * ?u idx) (indices ?s)"
    by (rule map_cong[OF refl]) (simp add: get_tabulate)
  also have "result_type (double v0) ?par = Float64" by (simp add: result_type_F64)
  finally have orth: "t_sub (double v0) ?par = Inr ?orth" .
  show ?thesis
    by (simp only: project_def Let_def nrm mul sm par orth ebind_def sum.case)
       (simp add: to_dtype_def)
qed

section \<open>The schedule generator\<close>



text \<open>
  Claim C7, as amended. For every \<open>high_scale\<close>, \<open>low_scale\<close> and every \<open>levels\<close> other
  than 1 (so for every \<open>levels \<ge> 2\<close>), \<open>create_guidance_scales\<close> called with a method that
  is neither \<open>linear\<close> nor \<open>cosine\<close> fails at once with the ValueError
  "Unknown interpolation method". With \<open>levels = 1\<close> the early return answers
  \<open>[high_scale]\<close> before the method is looked at.
\<close>

theorem create_guidance_scales_unknown_method:
  "levels \<noteq> 1 \<Longrightarrow> method \<noteq> ''linear'' \<Longrightarrow> method \<noteq> ''cosine'' \<Longrightarrow>
   create_guidance_scales high_scale low_scale levels method
     = Inl (ValueError (''Unknown interpolation method: '' @ method))"
  by (simp add: create_guidance_scales_def)

theorem create_guidance_scales_unknown_method_witness:
  "(4::int) \<noteq> 1 \<and> ''invalid'' \<noteq> ''linear'' \<and> ''invalid'' \<noteq> ''cosine'' \<and>
   create_guidance_scales 10 1 4 ''invalid''
     = Inl (ValueError ''Unknown interpolation method: invalid'')"
  using create_guidance_scales_unknown_method [of 4 "''invalid''" 10 1] by simp

text \<open>The claim as stated fails at \<open>levels = 1\<close>, a positive level count: no error.\<close>

theorem create_guidance_scales_single_level_any_method:
  "create_guidance_scales 10 1 1 ''invalid'' = Inr [10]"
  by (simp add: create_guidance_scales_def)



section \<open>The parallel weights of FDGNode.patch\<close>

lemma patch_levels_nonneg:
  assumes "patch float_of high low levels steps method weights_text = Inr cfg"
  shows "0 \<le> levels"
    and "cfg_parallel_weights_list cfg = parse_parallel_weights float_of levels weights_text"
  using assms
  by (auto simp: patch_def create_guidance_scales_def linspace_def ebind_def Let_def
           split: if_splits sum.splits)

lemma parse_parallel_weights_length:
  "0 \<le> levels \<Longrightarrow> length (parse_parallel_weights float_of levels weights_text) = nat levels"
  by (auto simp: parse_parallel_weights_def Let_def slice_to_def)

lemmas decimal_literal_simps =
  decimal_literal_def unsigned_decimal_def digits_value_def is_digit_def

lemmas parse_simps =
  parse_parallel_weights_def strip_def is_space_def slice_to_def eval_nat_numeral

text \<open>
  Claim C9. Whenever \<open>FDGNode.patch\<close> gets past the schedule, \<open>levels\<close> is not negative
  and the parallel weights it hands to the mixer are the parsed text, a list of exactly
  \<open>levels\<close> floats: if some comma-separated item is not a float the list is \<open>[1.0]\<close>
  repeated \<open>levels\<close> times; a parsed list shorter than \<open>levels\<close> is padded on the right
  with 1.0; a longer one is cut to its first \<open>levels\<close> entries. With \<open>levels = 4\<close>, the
  text \<open>1.0,2.0\<close> gives \<open>[1, 2, 1, 1]\<close> and \<open>1,2,3,4,5\<close> gives \<open>[1, 2, 3, 4]\<close>.
\<close>

theorem patch_parallel_weights:
  fixes float_of :: "string \<Rightarrow> real option"
  shows "(patch float_of high low levels steps method weights_text = Inr cfg \<longrightarrow>
            0 \<le> levels \<and>
            cfg_parallel_weights_list cfg = parse_parallel_weights float_of levels weights_text) \<and>
         (0 \<le> levels \<longrightarrow>
            (let parsed = map (\<lambda>w. float_of (strip w)) (split_char CHR '','' weights_text);
                 ws = map the parsed;
                 result = parse_parallel_weights float_of levels weights_text
             in length result = nat levels \<and>
                (\<not> list_all (\<lambda>r. r \<noteq> None) parsed \<longrightarrow> result = replicate (nat levels) 1) \<and>
                (list_all (\<lambda>r. r \<noteq> None) parsed \<and> length ws < nat levels \<longrightarrow>
                   result = ws @ replicate (nat levels - length ws) 1) \<and>
                (list_all (\<lambda>r. r \<noteq> None) parsed \<and> nat levels < length ws \<longrightarrow>
                   result = take (nat levels) ws) \<and>
                (list_all (\<lambda>r. r \<noteq> None) parsed \<and> length ws = nat levels \<longrightarrow> result = ws))) \<and>
         (float_of ''1.0'' = Some 1 \<and> float_of ''2.0'' = Some 2 \<longrightarrow>
            parse_parallel_weights float_of 4 ''1.0,2.0'' = [1, 2, 1, 1]) \<and>
         (float_of ''1'' = Some 1 \<and> float_of ''2'' = Some 2 \<and> float_of ''3'' = Some 3 \<and>
          float_of ''4'' = Some 4 \<and> float_of ''5'' = Some 5 \<longrightarrow>
            parse_parallel_weights float_of 4 ''1,2,3,4,5'' = [1, 2, 3, 4])"
proof (intro conjI impI)
  assume "patch float_of high low levels steps method weights_text = Inr cfg"
  then show "0 \<le> levels"
    and "cfg_parallel_weights_list cfg = parse_parallel_weights float_of levels weights_text"
    by (rule patch_levels_nonneg)+
next
  assume "0 \<le> levels"
  then show "let parsed = map (\<lambda>w. float_of (strip w)) (split_char CHR '','' weights_text);
                 ws = map the parsed;
                 result = parse_parallel_weights float_of levels weights_text
             in length result = nat levels \<and>
                (\<not> list_all (\<lambda>r. r \<noteq> None) parsed \<longrightarrow> result = replicate (nat levels) 1) \<and>
                (list_all (\<lambda>r. r \<noteq> None) parsed \<and> length ws < nat levels \<longrightarrow>
                   result = ws @ replicate (nat levels - length ws) 1) \<and>
                (list_all (\<lambda>r. r \<noteq> None) parsed \<and> nat levels < length ws \<longrightarrow>
                   result = take (nat levels) ws) \<and>
                (list_all (\<lambda>r. r \<noteq> None) parsed \<and> length ws = nat levels \<longrightarrow> result = ws)"
    unfolding Let_def
    by (intro conjI impI parse_parallel_weights_length)
       (auto simp: parse_parallel_weights_def Let_def slice_to_def nat_diff_distrib)
next
  assume "float_of ''1.0'' = Some 1 \<and> float_of ''2.0'' = Some 2"
  then show "parse_parallel_weights float_of 4 ''1.0,2.0'' = [1, 2, 1, 1]"
    by (simp add: parse_simps)
next
  assume "float_of ''1'' = Some 1 \<and> float_of ''2'' = Some 2 \<and> float_of ''3'' = Some 3 \<and>
          float_of ''4'' = Some 4 \<and> float_of ''5'' = Some 5"
  then show "parse_parallel_weights float_of 4 ''1,2,3,4,5'' = [1, 2, 3, 4]"
    by (simp add: parse_simps)
qed

theorem patch_parallel_weights_witness:
  "patch decimal_literal 10 1 4 2 ''linear'' ''1.0,2.0''
     = Inr \<lparr>cfg_guidance_scale_high = 10, cfg_fdg_steps = 2,
            cfg_guidance_scale = [10, 7, 4, 1], cfg_parallel_weights_list = [1, 2, 1, 1]\<rparr> \<and>
   decimal_literal ''1.0'' = Some 1 \<and> decimal_literal ''2.0'' = Some 2 \<and>
   decimal_literal ''1'' = Some 1 \<and> decimal_literal ''2'' = Some 2 \<and>
   decimal_literal ''3'' = Some 3 \<and> decimal_literal ''4'' = Some 4 \<and>
   decimal_literal ''5'' = Some 5 \<and> decimal_literal ''x'' = None \<and>
   parse_parallel_weights decimal_literal 4 ''1.0,2.0'' = [1, 2, 1, 1] \<and>
   parse_parallel_weights decimal_literal 4 ''1,2,3,4,5'' = [1, 2, 3, 4] \<and>
   parse_parallel_weights decimal_literal 4 ''1.0, x'' = [1, 1, 1, 1] \<and>
   parse_parallel_weights decimal_literal 4 ''1, 2 ,3,4'' = [1, 2, 3, 4]"
proof -
  have lits: "decimal_literal ''1.0'' = Some 1" "decimal_literal ''2.0'' = Some 2"
    "decimal_literal ''1'' = Some 1" "decimal_literal ''2'' = Some 2"
    "decimal_literal ''3'' = Some 3" "decimal_literal ''4'' = Some 4"
    "decimal_literal ''5'' = Some 5" "decimal_literal ''x'' = None"
    by (simp_all add: decimal_literal_simps)
  have gs: "create_guidance_scales 10 1 4 ''linear'' = Inr [10, 7, 4, 1]"
    by (simp add: create_guidance_scales_def linspace_def eval_nat_numeral)
  have p: "patch decimal_literal 10 1 4 2 ''linear'' ''1.0,2.0''
     = Inr \<lparr>cfg_guidance_scale_high = 10, cfg_fdg_steps = 2,
            cfg_guidance_scale = [10, 7, 4, 1],
            cfg_parallel_weights_list = parse_parallel_weights decimal_literal 4 ''1.0,2.0''\<rparr>"
    by (simp add: patch_def gs ebind_def)
  note t = patch_parallel_weights [where float_of = decimal_literal and levels = 4]
  have a: "parse_parallel_weights decimal_literal 4 ''1.0,2.0'' = [1, 2, 1, 1]"
    using t lits by blast
  have b: "parse_parallel_weights decimal_literal 4 ''1,2,3,4,5'' = [1, 2, 3, 4]"
    using t lits by blast
  have c: "parse_parallel_weights decimal_literal 4 ''1.0, x'' = [1, 1, 1, 1]"
    using t [where weights_text = "''1.0, x''"] lits
    by (simp add: Let_def strip_def is_space_def eval_nat_numeral)
  have d: "parse_parallel_weights decimal_literal 4 ''1, 2 ,3,4'' = [1, 2, 3, 4]"
    using t [where weights_text = "''1, 2 ,3,4''"] lits
    by (simp add: Let_def strip_def is_space_def)
  show ?thesis using p a b c d lits by simp
qed

section \<open>The step gate\<close>

lemma py_index_clamped:
  assumes "xs \<noteq> []" "0 \<le> k"
  shows "py_index xs (if k \<ge> int (length xs) - 1 then int (length xs) - 1 else k)
           = Inr (xs ! min (nat k) (length xs - 1))"
proof -
  have len: "0 < length xs" using assms by simp
  show ?thesis
  proof (cases "k \<ge> int (length xs) - 1")
    case True
    then have "min (nat k) (length xs - 1) = length xs - 1" by linarith
    moreover have "nat (int (length xs) - 1) = length xs - 1" by simp
    ultimately show ?thesis using True len by (simp add: py_index_def)
  next
    case False
    then have "min (nat k) (length xs - 1) = nat k" by linarith
    then show ?thesis using False assms(2) by (simp add: py_index_def)
  qed
qed

lemmas tensor_eval_simps =
  broadcast_op_def broadcast_shapes_def bview_def result_type_def indices_def get_def
  t_add_def t_sub_def t_mul_def t_div_def scalar_mul_def to_dtype_def double_def ebind_def
  eval_nat_numeral

text \<open>
  Claim C4. The gate is a function of the current sigma, the sigma schedule and the
  presence of the unconditional prediction. Without \<open>uncond\<close> it returns \<open>cond\<close>
  unchanged. Otherwise, for a non-empty schedule and a non-negative \<open>fdg_steps\<close>, the
  step limit is clamped to the last index of the schedule, the Laplacian mixer runs
  exactly when the current sigma is strictly greater than the sigma at that index, and
  in the other case the result is the blend \<open>uncond + (cond - uncond) * cond_scale\<close>,
  where \<open>cond_scale\<close> is \<open>guidance_scale_high\<close> when the caller's scale is close to 1.0.
  For the schedule \<open>[10, 8, 6, 4, 2, 0]\<close> and a step limit of 2, sigma 9 selects the
  mixer and sigma 3 the blend.
\<close>

theorem fdg_function_gate:
  "fdg_function blp pyrup cfg cond None s sigmas sigma = Inr cond \<and>
   (sigmas \<noteq> [] \<and> 0 \<le> cfg_fdg_steps cfg \<longrightarrow>
      fdg_function blp pyrup cfg cond (Some unc) s sigmas sigma =
        (if sigmas ! min (nat (cfg_fdg_steps cfg)) (length sigmas - 1) < sigma
         then laplacian_guidance blp pyrup cond unc (cfg_guidance_scale cfg)
                (Some (cfg_parallel_weights_list cfg))
         else cfg_blend cond unc (if isclose s 1 then cfg_guidance_scale_high cfg else s))) \<and>
   (cfg_fdg_steps cfg = 2 \<longrightarrow>
      fdg_function blp pyrup cfg cond (Some unc) s [10, 8, 6, 4, 2, 0] 9 =
        laplacian_guidance blp pyrup cond unc (cfg_guidance_scale cfg)
          (Some (cfg_parallel_weights_list cfg)) \<and>
      fdg_function blp pyrup cfg cond (Some unc) s [10, 8, 6, 4, 2, 0] 3 =
        cfg_blend cond unc (if isclose s 1 then cfg_guidance_scale_high cfg else s))"
proof (intro conjI impI)
  show "fdg_function blp pyrup cfg cond None s sigmas sigma = Inr cond"
    by (simp add: fdg_function_def)
next
  assume a: "sigmas \<noteq> [] \<and> 0 \<le> cfg_fdg_steps cfg"
  then have "py_index sigmas (if cfg_fdg_steps cfg \<ge> int (length sigmas) - 1
                              then int (length sigmas) - 1 else cfg_fdg_steps cfg)
               = Inr (sigmas ! min (nat (cfg_fdg_steps cfg)) (length sigmas - 1))"
    by (intro py_index_clamped) simp_all
  then show "fdg_function blp pyrup cfg cond (Some unc) s sigmas sigma =
        (if sigmas ! min (nat (cfg_fdg_steps cfg)) (length sigmas - 1) < sigma
         then laplacian_guidance blp pyrup cond unc (cfg_guidance_scale cfg)
                (Some (cfg_parallel_weights_list cfg))
         else cfg_blend cond unc (if isclose s 1 then cfg_guidance_scale_high cfg else s))"
    by (simp add: fdg_function_def Let_def ebind_def)
next
  assume "cfg_fdg_steps cfg = 2"
  then show "fdg_function blp pyrup cfg cond (Some unc) s [10, 8, 6, 4, 2, 0] 9 =
        laplacian_guidance blp pyrup cond unc (cfg_guidance_scale cfg)
          (Some (cfg_parallel_weights_list cfg))"
    by (simp add: fdg_function_def Let_def ebind_def py_index_def)
next
  assume "cfg_fdg_steps cfg = 2"
  then show "fdg_function blp pyrup cfg cond (Some unc) s [10, 8, 6, 4, 2, 0] 3 =
        cfg_blend cond unc (if isclose s 1 then cfg_guidance_scale_high cfg else s)"
    by (simp add: fdg_function_def Let_def ebind_def py_index_def)
qed

theorem fdg_function_gate_witness:
  "[10, 8, 6, 4, 2, 0 :: real] \<noteq> [] \<and>
   (0::int) \<le> cfg_fdg_steps \<lparr>cfg_guidance_scale_high = 15 / 2, cfg_fdg_steps = 2,
       cfg_guidance_scale = [15 / 2, 1], cfg_parallel_weights_list = [1, 1]\<rparr> \<and>
   isclose 1 1 \<and>
   fdg_function subsample_pyramid repeat_pyrup
       \<lparr>cfg_guidance_scale_high = 15 / 2, cfg_fdg_steps = 2,
        cfg_guidance_scale = [15 / 2, 1], cfg_parallel_weights_list = [1, 1]\<rparr>
       \<lparr>shape = [1, 1, 2, 2], dtype = Float32, data = [1, 0, 0, 0]\<rparr>
       (Some \<lparr>shape = [1, 1, 2, 2], dtype = Float32, data = [0, 0, 0, 0]\<rparr>)
       1 [10, 8, 6, 4, 2, 0] 9
     = laplacian_guidance subsample_pyramid repeat_pyrup
         \<lparr>shape = [1, 1, 2, 2], dtype = Float32, data = [1, 0, 0, 0]\<rparr>
         \<lparr>shape = [1, 1, 2, 2], dtype = Float32, data = [0, 0, 0, 0]\<rparr>
         [15 / 2, 1] (Some [1, 1]) \<and>
   fdg_function subsample_pyramid repeat_pyrup
       \<lparr>cfg_guidance_scale_high = 15 / 2, cfg_fdg_steps = 2,
        cfg_guidance_scale = [15 / 2, 1], cfg_parallel_weights_list = [1, 1]\<rparr>
       \<lparr>shape = [1, 1, 2, 2], dtype = Float32, data = [1, 0, 0, 0]\<rparr>
       (Some \<lparr>shape = [1, 1, 2, 2], dtype = Float32, data = [0, 0, 0, 0]\<rparr>)
       1 [10, 8, 6, 4, 2, 0] 3
     = Inr \<lparr>shape = [1, 1, 2, 2], dtype = Float32, data = [15 / 2, 0, 0, 0]\<rparr>"
proof -
  let ?cfg = "\<lparr>cfg_guidance_scale_high = 15 / 2, cfg_fdg_steps = 2,
       cfg_guidance_scale = [15 / 2, 1], cfg_parallel_weights_list = [1, 1]\<rparr>"
  let ?c = "\<lparr>shape = [1, 1, 2, 2], dtype = Float32, data = [1, 0, 0, 0]\<rparr>"
  let ?u = "\<lparr>shape = [1, 1, 2, 2], dtype = Float32, data = [0, 0, 0, 0]\<rparr>"
  have close: "isclose 1 1" by (simp add: isclose_def)
  have blend: "cfg_blend ?c ?u (15 / 2)
                 = Inr \<lparr>shape = [1, 1, 2, 2], dtype = Float32, data = [15 / 2, 0, 0, 0]\<rparr>"
    by (simp add: cfg_blend_def tensor_eval_simps)
  have steps: "cfg_fdg_steps ?cfg = 2" by simp
  note g = fdg_function_gate [where cfg = ?cfg and cond = ?c and unc = ?u and s = 1
             and blp = subsample_pyramid and pyrup = repeat_pyrup]
  show ?thesis using g steps close blend by simp
qed

section \<open>project on two tensors of one shape\<close>

lemma shape_split3:
  assumes "3 \<le> length s"
  obtains l c h w where "s = l @ [c, h, w]" "l = lead_shape s"
proof -
  let ?t = "drop (length s - 3) s"
  have "length ?t = 3" using assms by simp
  then obtain c h w where t: "?t = [c, h, w]"
    by (cases ?t; simp; cases "tl ?t"; simp; cases "tl (tl ?t)"; simp)
  have "s = take (length s - 3) s @ ?t" by simp
  then have "s = lead_shape s @ [c, h, w]" using t by (simp add: lead_shape_def)
  then show ?thesis using that by blast
qed

lemma promote_same [simp]: "promote d d = d"
  by (cases d) simp_all

lemma result_type_same: "dtype a = dtype b \<Longrightarrow> result_type a b = dtype a"
  by (simp add: result_type_def)

lemma dot_map: "dot (map f xs) (map g xs) = sum_list (map (\<lambda>x. f x * g x) xs)"
  by (simp add: dot_def map2_map_map)

lemma norm2_map: "norm2 (map f xs) = sqrt (sum_list (map (\<lambda>x. f x * f x) xs))"
  by (simp add: norm2_def comp_def)

lemma orthogonal_residual:
  fixes f g :: "'a \<Rightarrow> real"
  assumes n: "n = sqrt (sum_list (map (\<lambda>t. g t * g t) ts))" and pos: "0 < n"
    and d: "d = sum_list (map (\<lambda>t. f t * (g t / n)) ts)"
  shows "sum_list (map (\<lambda>t. (f t - d * (g t / n)) * g t) ts) = 0"
proof -
  let ?fg = "sum_list (map (\<lambda>t. f t * g t) ts)"
  let ?gg = "sum_list (map (\<lambda>t. g t * g t) ts)"
  have gg0: "0 \<le> ?gg" by (rule sum_list_nonneg) auto
  have gg: "?gg = n * n" using n gg0 by simp
  have "d = sum_list (map (\<lambda>t. (f t * g t) * (1 / n)) ts)" using d by simp
  also have "\<dots> = ?fg * (1 / n)" by (rule sum_list_mult_const)
  finally have dd: "d = ?fg / n" by simp
  have "sum_list (map (\<lambda>t. (f t - d * (g t / n)) * g t) ts)
      = sum_list (map (\<lambda>t. f t * g t - (d / n) * (g t * g t)) ts)"
    by (simp add: algebra_simps)
  also have "\<dots> = ?fg - sum_list (map (\<lambda>t. (d / n) * (g t * g t)) ts)"
    by (rule sum_list_subtractf)
  also have "sum_list (map (\<lambda>t. (d / n) * (g t * g t)) ts) = (d / n) * ?gg"
    by (rule sum_list_const_mult)
  also have "(d / n) * ?gg = ?fg" using pos by (simp add: gg dd)
  finally show ?thesis by simp
qed

lemma normalize_eps_pos: "0 < normalize_eps"
  by (simp add: normalize_eps_def)

lemma batch_entry_tabulate:
  assumes "x \<in> set (indices l)"
  shows "batch_entry \<lparr>shape = l @ [c, h, w], dtype = d, data = map g (indices (l @ [c, h, w]))\<rparr> x
           = map (\<lambda>tr. g (x @ tr)) (indices [c, h, w])"
proof -
  have "get \<lparr>shape = l @ [c, h, w], dtype = d, data = map g (indices (l @ [c, h, w]))\<rparr> (x @ tr) = g (x @ tr)"
    if "tr \<in> set (indices [c, h, w])" for tr
  proof -
    have "x @ tr \<in> set (indices (l @ [c, h, w]))" using that assms by (auto simp: indices_append)
    then show ?thesis by (rule get_tabulate)
  qed
  then show ?thesis by (simp add: batch_entry_def cong: map_cong)
qed

lemma project_sum:
  assumes wf: "well_formed v0" and s0: "shape v0 = l @ [c, h, w]" and s1: "shape v1 = l @ [c, h, w]"
    and p: "project v0 v1 = Inr (par, orth)"
  shows "t_add par orth = Inr v0"
proof -
  let ?s = "l @ [c, h, w]"
  let ?k = "length l"
  have par: "par = \<lparr>shape = ?s, dtype = dtype v0,
      data = map (\<lambda>idx. par_coef v0 v1 (take ?k idx) * unit_elem v1 ?k idx) (indices ?s)\<rparr>"
   and orth: "orth = \<lparr>shape = ?s, dtype = dtype v0,
      data = map (\<lambda>idx. get v0 idx - par_coef v0 v1 (take ?k idx) * unit_elem v1 ?k idx) (indices ?s)\<rparr>"
    using p project_same_shape[OF s0 s1] by simp_all
  have sh: "shape par = shape orth" "shape par = ?s" "dtype par = dtype orth" "dtype par = dtype v0"
    by (simp_all add: par orth)
  have "map (\<lambda>idx. get par idx + get orth idx) (indices ?s) = map (get v0) (indices ?s)"
    by (rule map_cong[OF refl]) (simp add: par orth get_tabulate)
  also have "\<dots> = data v0" using data_tabulate[OF wf] s0 by simp
  finally have "t_add par orth = Inr \<lparr>shape = ?s, dtype = dtype v0, data = data v0\<rparr>"
    unfolding t_add_def using broadcast_op_same[OF sh(1), of "(+)"] sh result_type_same[OF sh(3)]
    by simp
  then show ?thesis using s0 by simp
qed

lemma project_batch:
  assumes s0: "shape v0 = l @ [c, h, w]" and s1: "shape v1 = l @ [c, h, w]"
    and p: "project v0 v1 = Inr (par, orth)"
    and x: "x \<in> set (indices l)"
    and floor: "normalize_eps \<le> norm2 (batch_entry v1 x)"
  shows "batch_entry par x =
           map ((*) (dot (batch_entry v0 x) (unit_vector (batch_entry v1 x))))
               (unit_vector (batch_entry v1 x))"
    and "dot (batch_entry orth x) (batch_entry v1 x) = 0"
proof -
  let ?s = "l @ [c, h, w]"
  let ?k = "length l"
  let ?ts = "indices [c, h, w]"
  let ?n = "norm2 (batch_entry v1 x)"
  let ?f = "\<lambda>tr. get v0 (x @ tr)"
  let ?g = "\<lambda>tr. get v1 (x @ tr)"
  have par: "par = \<lparr>shape = ?s, dtype = dtype v0,
      data = map (\<lambda>idx. par_coef v0 v1 (take ?k idx) * unit_elem v1 ?k idx) (indices ?s)\<rparr>"
   and orth: "orth = \<lparr>shape = ?s, dtype = dtype v0,
      data = map (\<lambda>idx. get v0 idx - par_coef v0 v1 (take ?k idx) * unit_elem v1 ?k idx) (indices ?s)\<rparr>"
    using p project_same_shape[OF s0 s1] by simp_all
  have kx: "length x = ?k" using x by (rule indices_length)
  have npos: "0 < ?n" using floor normalize_eps_pos by linarith
  have b0: "batch_entry v0 x = map ?f ?ts" by (simp add: batch_entry_def s0)
  have b1: "batch_entry v1 x = map ?g ?ts" by (simp add: batch_entry_def s1)
  have ue: "unit_elem v1 ?k (x @ tr) = ?g tr / ?n" for tr
    using floor kx by (simp add: unit_elem_def max_def)
  have uv: "unit_vector (batch_entry v1 x) = map (\<lambda>tr. ?g tr / ?n) ?ts"
    by (simp add: unit_vector_def b1[symmetric]) (simp add: b1 comp_def)
  have coef: "par_coef v0 v1 x = sum_list (map (\<lambda>tr. ?f tr * (?g tr / ?n)) ?ts)"
    using kx by (simp add: par_coef_def s1 ue)
  have dt: "dot (batch_entry v0 x) (unit_vector (batch_entry v1 x)) = par_coef v0 v1 x"
    by (simp only: b0 uv dot_map coef)
  have bp: "batch_entry par x = map (\<lambda>tr. par_coef v0 v1 x * (?g tr / ?n)) ?ts"
    unfolding par using batch_entry_tabulate[OF x] kx by (simp add: ue)
  have "map ((*) (dot (batch_entry v0 x) (unit_vector (batch_entry v1 x))))
            (unit_vector (batch_entry v1 x))
          = map ((*) (par_coef v0 v1 x)) (map (\<lambda>tr. ?g tr / ?n) ?ts)"
    by (subst dt) (simp only: uv)
  also have "\<dots> = map (\<lambda>tr. par_coef v0 v1 x * (?g tr / ?n)) ?ts"
    by (simp only: map_map comp_def)
  finally show "batch_entry par x =
           map ((*) (dot (batch_entry v0 x) (unit_vector (batch_entry v1 x))))
               (unit_vector (batch_entry v1 x))"
    using bp by simp
  have bo: "batch_entry orth x = map (\<lambda>tr. ?f tr - par_coef v0 v1 x * (?g tr / ?n)) ?ts"
    unfolding orth using batch_entry_tabulate[OF x] kx by (simp add: ue)
  have nn: "?n = sqrt (sum_list (map (\<lambda>tr. ?g tr * ?g tr) ?ts))"
    by (simp only: b1 norm2_map)
  have "dot (batch_entry orth x) (batch_entry v1 x)
      = sum_list (map (\<lambda>tr. (?f tr - par_coef v0 v1 x * (?g tr / ?n)) * ?g tr) ?ts)"
    by (simp only: bo b1 dot_map)
  also have "\<dots> = 0" by (rule orthogonal_residual[OF nn npos coef])
  finally show "dot (batch_entry orth x) (batch_entry v1 x) = 0" .
qed

text \<open>
  Claim C2, as amended. For every pair of well-formed tensors \<open>v0\<close>, \<open>v1\<close> of one shape
  with at least three axes, \<open>project v0 v1\<close> returns \<open>(v0_parallel, v0_orthogonal)\<close> with
  \<open>v0_parallel + v0_orthogonal = v0\<close>; and for every batch entry in which the norm of
  \<open>v1\<close> is at least the \<open>eps = 1e-12\<close> of \<open>normalize\<close>, \<open>v0_parallel\<close> is the inner product
  of \<open>v0\<close> with the unit-normalised \<open>v1\<close> (summed over channel, height and width) times
  that unit vector, and the inner product of \<open>v0_orthogonal\<close> with \<open>v1\<close> is zero.
  (Exact arithmetic.)
\<close>

theorem project_decomposition:
  assumes "well_formed v0" "shape v0 = shape v1" "3 \<le> length (shape v1)"
  shows "case project v0 v1 of
           Inl e \<Rightarrow> False
         | Inr (v0_parallel, v0_orthogonal) \<Rightarrow>
             t_add v0_parallel v0_orthogonal = Inr v0 \<and>
             (\<forall>x \<in> set (indices (lead_shape (shape v1))).
                normalize_eps \<le> norm2 (batch_entry v1 x) \<longrightarrow>
                  batch_entry v0_parallel x =
                    map ((*) (dot (batch_entry v0 x) (unit_vector (batch_entry v1 x))))
                        (unit_vector (batch_entry v1 x)) \<and>
                  dot (batch_entry v0_orthogonal x) (batch_entry v1 x) = 0)"
proof -
  from assms(3) obtain l c h w where s1: "shape v1 = l @ [c, h, w]" and l: "l = lead_shape (shape v1)"
    by (rule shape_split3)
  have s0: "shape v0 = l @ [c, h, w]" using assms(2) s1 by simp
  obtain par orth where p: "project v0 v1 = Inr (par, orth)"
    using project_same_shape[OF s0 s1] by blast
  have "t_add par orth = Inr v0" by (rule project_sum[OF assms(1) s0 s1 p])
  moreover have "batch_entry par x =
                    map ((*) (dot (batch_entry v0 x) (unit_vector (batch_entry v1 x))))
                        (unit_vector (batch_entry v1 x)) \<and>
                  dot (batch_entry orth x) (batch_entry v1 x) = 0"
    if "x \<in> set (indices (lead_shape (shape v1)))" "normalize_eps \<le> norm2 (batch_entry v1 x)" for x
    using project_batch[OF s0 s1 p _ that(2)] that(1) l by simp
  ultimately show ?thesis unfolding p by simp
qed

lemmas project_eval_simps =
  project_def normalize_def norm_last3_def sum_last3_def reduce_last3_def clamp_min_def
  normalize_eps_def norm2_def lead_shape_def trail_shape_def batch_entry_def
  tensor_eval_simps

theorem project_decomposition_witness:
  "well_formed \<lparr>shape = [1, 1, 1, 2], dtype = Float32, data = [2, 3]\<rparr> \<and>
   shape \<lparr>shape = [1, 1, 1, 2], dtype = Float32, data = [2, 3]\<rparr>
     = shape \<lparr>shape = [1, 1, 1, 2], dtype = Float32, data = [1, 0]\<rparr> \<and>
   3 \<le> length (shape \<lparr>shape = [1, 1, 1, 2], dtype = Float32, data = [1, 0]\<rparr>) \<and>
   project \<lparr>shape = [1, 1, 1, 2], dtype = Float32, data = [2, 3]\<rparr>
           \<lparr>shape = [1, 1, 1, 2], dtype = Float32, data = [1, 0]\<rparr>
     = Inr (\<lparr>shape = [1, 1, 1, 2], dtype = Float32, data = [2, 0]\<rparr>,
            \<lparr>shape = [1, 1, 1, 2], dtype = Float32, data = [0, 3]\<rparr>) \<and>
   t_add \<lparr>shape = [1, 1, 1, 2], dtype = Float32, data = [2, 0]\<rparr>
         \<lparr>shape = [1, 1, 1, 2], dtype = Float32, data = [0, 3]\<rparr>
     = Inr \<lparr>shape = [1, 1, 1, 2], dtype = Float32, data = [2, 3]\<rparr> \<and>
   [0] \<in> set (indices (lead_shape [1, 1, 1, 2])) \<and>
   normalize_eps \<le> norm2 (batch_entry \<lparr>shape = [1, 1, 1, 2], dtype = Float32, data = [1, 0]\<rparr> [0]) \<and>
   dot (batch_entry \<lparr>shape = [1, 1, 1, 2], dtype = Float32, data = [0, 3]\<rparr> [0])
       (batch_entry \<lparr>shape = [1, 1, 1, 2], dtype = Float32, data = [1, 0]\<rparr> [0]) = 0"
proof -
  let ?a = "\<lparr>shape = [1, 1, 1, 2], dtype = Float32, data = [2, 3]\<rparr>"
  let ?b = "\<lparr>shape = [1, 1, 1, 2], dtype = Float32, data = [1, 0]\<rparr>"
  let ?p = "\<lparr>shape = [1, 1, 1, 2], dtype = Float32, data = [2, 0]\<rparr>"
  let ?q = "\<lparr>shape = [1, 1, 1, 2], dtype = Float32, data = [0, 3]\<rparr>"
  have h1: "well_formed ?a" by (simp add: well_formed_def)
  have h2: "shape ?a = shape ?b" by simp
  have h3: "3 \<le> length (shape ?b)" by simp
  have p: "project ?a ?b = Inr (?p, ?q)" by (simp add: project_eval_simps)
  have x: "[0] \<in> set (indices (lead_shape [1, 1, 1, 2]))"
    by (simp add: lead_shape_def indices_def)
  have fl: "normalize_eps \<le> norm2 (batch_entry ?b [0])"
    by (simp add: project_eval_simps)
  from project_decomposition [OF h1 h2 h3]
  have "t_add ?p ?q = Inr ?a \<and>
        (\<forall>x \<in> set (indices (lead_shape (shape ?b))).
            normalize_eps \<le> norm2 (batch_entry ?b x) \<longrightarrow>
              batch_entry ?p x = map ((*) (dot (batch_entry ?a x) (unit_vector (batch_entry ?b x))))
                                    (unit_vector (batch_entry ?b x)) \<and>
              dot (batch_entry ?q x) (batch_entry ?b x) = 0)"
    unfolding p by simp
  then have "t_add ?p ?q = Inr ?a" "dot (batch_entry ?q [0]) (batch_entry ?b [0]) = 0"
    using x fl by auto
  then show ?thesis using h1 h3 p x fl by simp
qed

text \<open>The claim as stated fails where a batch entry of \<open>v1\<close> is not zero but has a norm
  below \<open>eps\<close>: the division is by \<open>eps\<close>, the parallel part is not the projection on
  the unit vector, and the rest is not orthogonal to \<open>v1\<close>.\<close>

theorem project_below_eps_not_orthogonal:
  "batch_entry \<lparr>shape = [1, 1, 1, 1], dtype = Float64, data = [1 / 10 ^ 13]\<rparr> [0] = [1 / 10 ^ 13] \<and>
   project \<lparr>shape = [1, 1, 1, 1], dtype = Float64, data = [10 ^ 13]\<rparr>
           \<lparr>shape = [1, 1, 1, 1], dtype = Float64, data = [1 / 10 ^ 13]\<rparr>
     = Inr (\<lparr>shape = [1, 1, 1, 1], dtype = Float64, data = [10 ^ 11]\<rparr>,
            \<lparr>shape = [1, 1, 1, 1], dtype = Float64, data = [99 * 10 ^ 11]\<rparr>) \<and>
   dot (batch_entry \<lparr>shape = [1, 1, 1, 1], dtype = Float64, data = [99 * 10 ^ 11]\<rparr> [0])
       (batch_entry \<lparr>shape = [1, 1, 1, 1], dtype = Float64, data = [1 / 10 ^ 13]\<rparr> [0])
     = 99 / 100 \<and>
   map ((*) (dot (batch_entry \<lparr>shape = [1, 1, 1, 1], dtype = Float64, data = [10 ^ 13]\<rparr> [0])
                 (unit_vector (batch_entry \<lparr>shape = [1, 1, 1, 1], dtype = Float64,
                                             data = [1 / 10 ^ 13]\<rparr> [0]))))
       (unit_vector (batch_entry \<lparr>shape = [1, 1, 1, 1], dtype = Float64, data = [1 / 10 ^ 13]\<rparr> [0]))
     = [10 ^ 13]"
proof -
  have "sqrt ((1 / 10 ^ 13) * (1 / 10 ^ 13)) = \<bar>1 / 10 ^ 13\<bar>"
    by (rule real_sqrt_abs2)
  then have r: "sqrt (1 / 100000000000000000000000000) = 1 / 10000000000000"
    by simp
  show ?thesis
    by (simp add: project_eval_simps dot_def unit_vector_def r)
qed

lemma get_zero:
  assumes "data v = replicate (prod_list s) 0" "shape v = s" "idx \<in> set (indices s)"
  shows "get v idx = 0"
  using assms ravel_less[OF assms(3)] by (simp add: get_def)

lemma clamped_norm_positive:
  assumes "3 \<le> length (shape v)"
  shows "case norm_last3 v of
           Inl e \<Rightarrow> False
         | Inr n \<Rightarrow> \<forall>d \<in> set (data (clamp_min normalize_eps n)). 0 < d"
proof -
  from assms obtain l c h w where s: "shape v = l @ [c, h, w]" by (rule shape_split3)
  have "0 < max normalize_eps y" for y using normalize_eps_pos by (simp add: max_def)
  then show ?thesis
    unfolding norm_last3_def reduce_last3_keepdim[OF s] by (auto simp: clamp_min_def)
qed

text \<open>
  Claim C5. For every well-formed tensor \<open>v0\<close> with at least three axes and an all-zero
  \<open>v1\<close> of the same shape, \<open>project v0 v1\<close> raises nothing: every divisor of the
  normalisation is at least \<open>eps\<close>, so positive; the parallel component returned is the
  zero tensor and the orthogonal component is \<open>v0\<close>. (Exact arithmetic.)
\<close>

theorem project_zero_reference:
  assumes "well_formed v0" "shape v1 = shape v0" "3 \<le> length (shape v0)"
    and "data v1 = replicate (prod_list (shape v0)) 0"
  shows "project v0 v1
           = Inr (\<lparr>shape = shape v0, dtype = dtype v0, data = replicate (prod_list (shape v0)) 0\<rparr>, v0) \<and>
         (case norm_last3 (double v1) of
            Inl e \<Rightarrow> False
          | Inr n \<Rightarrow> \<forall>d \<in> set (data (clamp_min normalize_eps n)). 0 < d)"
proof
  from assms(3) obtain l c h w where s0: "shape v0 = l @ [c, h, w]" by (rule shape_split3)
  let ?s = "l @ [c, h, w]"
  let ?k = "length l"
  have s1: "shape v1 = ?s" using assms(2) s0 by simp
  have z: "unit_elem v1 ?k idx = 0" if "idx \<in> set (indices ?s)" for idx
    using get_zero[of v1 ?s idx] assms(4) s0 s1 that by (simp add: unit_elem_def)
  have "map (\<lambda>idx. par_coef v0 v1 (take ?k idx) * unit_elem v1 ?k idx) (indices ?s)
          = map (\<lambda>idx. 0) (indices ?s)"
    by (rule map_cong[OF refl]) (simp add: z)
  also have "\<dots> = replicate (prod_list ?s) 0"
    by (simp only: map_replicate_const length_indices)
  finally have par: "map (\<lambda>idx. par_coef v0 v1 (take ?k idx) * unit_elem v1 ?k idx) (indices ?s)
          = replicate (prod_list ?s) 0" .
  have "map (\<lambda>idx. get v0 idx - par_coef v0 v1 (take ?k idx) * unit_elem v1 ?k idx) (indices ?s)
          = map (get v0) (indices ?s)"
    by (rule map_cong[OF refl]) (simp add: z)
  also have "\<dots> = data v0" using data_tabulate[OF assms(1)] s0 by simp
  finally have orth: "map (\<lambda>idx. get v0 idx - par_coef v0 v1 (take ?k idx) * unit_elem v1 ?k idx) (indices ?s)
          = data v0" .
  have "\<lparr>shape = ?s, dtype = dtype v0, data = data v0\<rparr> = v0" using s0 by simp
  then show "project v0 v1
           = Inr (\<lparr>shape = shape v0, dtype = dtype v0, data = replicate (prod_list (shape v0)) 0\<rparr>, v0)"
    unfolding project_same_shape[OF s0 s1] par orth s0 by simp
next
  have "3 \<le> length (shape (double v1))" using assms(2,3) by simp
  then show "case norm_last3 (double v1) of
            Inl e \<Rightarrow> False
          | Inr n \<Rightarrow> \<forall>d \<in> set (data (clamp_min normalize_eps n)). 0 < d"
    by (rule clamped_norm_positive)
qed

theorem project_zero_reference_witness:
  "well_formed \<lparr>shape = [1, 1, 1, 2], dtype = Float32, data = [2, 3]\<rparr> \<and>
   shape \<lparr>shape = [1, 1, 1, 2], dtype = Float32, data = [0, 0]\<rparr>
     = shape \<lparr>shape = [1, 1, 1, 2], dtype = Float32, data = [2, 3]\<rparr> \<and>
   3 \<le> length (shape \<lparr>shape = [1, 1, 1, 2], dtype = Float32, data = [2, 3]\<rparr>) \<and>
   data \<lparr>shape = [1, 1, 1, 2], dtype = Float32, data = [0, 0]\<rparr>
     = replicate (prod_list (shape \<lparr>shape = [1, 1, 1, 2], dtype = Float32, data = [2, 3]\<rparr>)) 0 \<and>
   project \<lparr>shape = [1, 1, 1, 2], dtype = Float32, data = [2, 3]\<rparr>
           \<lparr>shape = [1, 1, 1, 2], dtype = Float32, data = [0, 0]\<rparr>
     = Inr (\<lparr>shape = [1, 1, 1, 2], dtype = Float32, data = [0, 0]\<rparr>,
            \<lparr>shape = [1, 1, 1, 2], dtype = Float32, data = [2, 3]\<rparr>) \<and>
   norm_last3 (double \<lparr>shape = [1, 1, 1, 2], dtype = Float32, data = [0, 0]\<rparr>)
     = Inr \<lparr>shape = [1, 1, 1, 1], dtype = Float64, data = [0]\<rparr> \<and>
   data (clamp_min normalize_eps \<lparr>shape = [1, 1, 1, 1], dtype = Float64, data = [0]\<rparr>)
     = [1 / 10 ^ 12]"
proof -
  let ?a = "\<lparr>shape = [1, 1, 1, 2], dtype = Float32, data = [2, 3]\<rparr>"
  let ?z = "\<lparr>shape = [1, 1, 1, 2], dtype = Float32, data = [0, 0]\<rparr>"
  have h1: "well_formed ?a" by (simp add: well_formed_def)
  have h2: "shape ?z = shape ?a" by simp
  have h3: "3 \<le> length (shape ?a)" by simp
  have h4: "data ?z = replicate (prod_list (shape ?a)) 0" by (simp add: eval_nat_numeral)
  have n: "norm_last3 (double ?z) = Inr \<lparr>shape = [1, 1, 1, 1], dtype = Float64, data = [0]\<rparr>"
    by (simp add: project_eval_simps)
  have c: "data (clamp_min normalize_eps \<lparr>shape = [1, 1, 1, 1], dtype = Float64, data = [0]\<rparr>)
             = [1 / 10 ^ 12]"
    by (simp add: clamp_min_def normalize_eps_def)
  have "project ?a ?z = Inr (?z, ?a)"
    using project_zero_reference [OF h1 h2 h3 h4] by (simp add: eval_nat_numeral)
  then show ?thesis using h1 h2 h3 h4 n c by simp
qed

section \<open>When project fails\<close>

lemma broadcast_rev_Nil2 [simp]: "broadcast_rev xs [] = Some xs"
  by (cases xs) simp_all

lemma broadcast_rev_absorb_right:
  "broadcast_rev xs ys = Some zs \<Longrightarrow> broadcast_rev zs ys = Some zs"
proof (induction xs ys arbitrary: zs rule: broadcast_rev.induct)
  case (1 ys)
  then show ?case by (simp add: broadcast_rev_same)
next
  case (2 x xs)
  then show ?case by simp
next
  case (3 x xs y ys)
  then show ?case by (auto split: if_splits)
qed

lemma broadcast_rev_absorb_left:
  "broadcast_rev xs ys = Some zs \<Longrightarrow> broadcast_rev xs zs = Some zs"
proof (induction xs ys arbitrary: zs rule: broadcast_rev.induct)
  case (1 ys)
  then show ?case by simp
next
  case (2 x xs)
  then show ?case by (simp add: broadcast_rev_same)
next
  case (3 x xs y ys)
  then show ?case by (auto split: if_splits)
qed

lemma broadcast_rev_length:
  "broadcast_rev xs ys = Some zs \<Longrightarrow> length zs = max (length xs) (length ys)"
proof (induction xs ys arbitrary: zs rule: broadcast_rev.induct)
  case (3 x xs y ys)
  then show ?case by (auto split: if_splits)
qed simp_all

lemma broadcast_rev_tail:
  "broadcast_rev (z # zs) (y # ys) = Some (z # zs) \<Longrightarrow> broadcast_rev zs ys = Some zs"
  by (auto split: if_splits)

lemma broadcast_rev_drop:
  "broadcast_rev zs ys = Some zs \<Longrightarrow> broadcast_rev (drop n zs) (drop n ys) = Some (drop n zs)"
proof (induction n arbitrary: zs ys)
  case 0
  then show ?case by simp
next
  case (Suc n)
  show ?case
  proof (cases zs)
    case Nil
    then have "ys = []" using Suc.prems by simp
    then show ?thesis using Nil by simp
  next
    case (Cons z zs')
    show ?thesis
    proof (cases ys)
      case Nil
      then show ?thesis by simp
    next
      case (Cons y ys')
      then have "broadcast_rev zs' ys' = Some zs'"
        using Suc.prems \<open>zs = z # zs'\<close> broadcast_rev_tail by blast
      then show ?thesis using Suc.IH Cons \<open>zs = z # zs'\<close> by simp
    qed
  qed
qed

lemma broadcast_rev_mixed:
  "broadcast_rev xs ys = Some zs \<Longrightarrow> n \<le> length ys \<Longrightarrow>
     broadcast_rev xs (take n ys @ drop n zs) \<noteq> None"
proof (induction xs ys arbitrary: zs n rule: broadcast_rev.induct)
  case (1 ys)
  then show ?case by simp
next
  case (2 x xs)
  then show ?case by (simp add: broadcast_rev_same)
next
  case (3 x xs y ys)
  show ?case
  proof (cases n)
    case 0
    then show ?thesis using broadcast_rev_absorb_left[OF "3.prems"(1)] by simp
  next
    case (Suc m)
    then show ?thesis using 3 by (auto split: if_splits)
  qed
qed

lemma keepdim_then_broadcast:
  assumes b: "broadcast_rev r0 (w # h # c # m1) = Some rb"
  shows "broadcast_rev (1 # 1 # 1 # drop 3 rb) (w # h # c # m1) = Some (w # h # c # drop 3 rb)"
    and "broadcast_rev r0 (w # h # c # drop 3 rb) \<noteq> None"
proof -
  have "broadcast_rev rb (w # h # c # m1) = Some rb" using b by (rule broadcast_rev_absorb_right)
  then have "broadcast_rev (drop 3 rb) (drop 3 (w # h # c # m1)) = Some (drop 3 rb)"
    by (rule broadcast_rev_drop)
  then show "broadcast_rev (1 # 1 # 1 # drop 3 rb) (w # h # c # m1) = Some (w # h # c # drop 3 rb)"
    by auto
  have "broadcast_rev r0 (take 3 (w # h # c # m1) @ drop 3 rb) \<noteq> None"
    using b by (rule broadcast_rev_mixed) simp
  then show "broadcast_rev r0 (w # h # c # drop 3 rb) \<noteq> None" by simp
qed

lemma broadcast_op_Inl:
  "broadcast_shapes (shape a) (shape b) = None \<Longrightarrow> broadcast_op f a b = Inl ShapeMismatch"
  by (simp add: broadcast_op_def)

lemma broadcast_op_Inr:
  "broadcast_shapes (shape a) (shape b) = Some s \<Longrightarrow>
     \<exists>c. broadcast_op f a b = Inr c \<and> shape c = s"
  by (simp add: broadcast_op_def)

lemma normalize_short: "length (shape v) < 3 \<Longrightarrow> normalize v = Inl IndexError"
  by (simp add: normalize_def norm_last3_def reduce_last3_def ebind_def)

lemma normalize_shape:
  assumes "shape v = l @ [c, h, w]"
  shows "\<exists>n. normalize v = Inr n \<and> shape n = shape v"
proof -
  obtain m where m: "norm_last3 v = Inr m" "shape m = l @ [1, 1, 1]"
    unfolding norm_last3_def reduce_last3_keepdim[OF assms] by simp
  have "shape (clamp_min normalize_eps m) = l @ [1, 1, 1]" using m by (simp add: clamp_min_def)
  then have "\<exists>n. t_div v (clamp_min normalize_eps m) = Inr n \<and> shape n = l @ [c, h, w]"
    unfolding t_div_def using broadcast_op_keepdim_right[OF assms, of "clamp_min normalize_eps m" "(/)"]
    by simp
  then show ?thesis using m assms by (simp add: normalize_def ebind_def)
qed

lemma sum_last3_shape:
  assumes "3 \<le> length (shape p)"
  shows "\<exists>s. sum_last3 p = Inr s \<and> shape s = lead_shape (shape p) @ [1, 1, 1]"
  using assms by (simp add: sum_last3_def reduce_last3_def)

lemma rev_keepdim:
  assumes "3 \<le> length b"
  shows "rev (lead_shape b @ [1, 1, 1]) = 1 # 1 # 1 # drop 3 (rev b)"
proof -
  have "rev (take (length b - 3) b) = drop 3 (rev b)" using assms by (simp add: rev_take)
  then show ?thesis by (simp add: lead_shape_def)
qed

lemma project_outcome:
  shows "length (shape v1) < 3 \<Longrightarrow> project v0 v1 = Inl IndexError"
    and "3 \<le> length (shape v1) \<Longrightarrow> broadcast_shapes (shape v0) (shape v1) = None \<Longrightarrow>
           project v0 v1 = Inl ShapeMismatch"
    and "3 \<le> length (shape v1) \<Longrightarrow> broadcast_shapes (shape v0) (shape v1) \<noteq> None \<Longrightarrow>
           \<exists>r. project v0 v1 = Inr r"
proof -
  show "project v0 v1 = Inl IndexError" if "length (shape v1) < 3"
    using that by (simp add: project_def Let_def normalize_short ebind_def)
next
  assume r: "3 \<le> length (shape v1)"
  then obtain l c h w where s1: "shape (double v1) = l @ [c, h, w]"
    using shape_split3[of "shape v1"] by (metis shape_double)
  then obtain v1n where n: "normalize (double v1) = Inr v1n" "shape v1n = l @ [c, h, w]"
    using normalize_shape by metis
  have sv1: "shape v1 = l @ [c, h, w]" using s1 by simp
  show "project v0 v1 = Inl ShapeMismatch" if "broadcast_shapes (shape v0) (shape v1) = None"
  proof -
    have "t_mul (double v0) v1n = Inl ShapeMismatch"
      unfolding t_mul_def using that n(2) sv1 by (intro broadcast_op_Inl) simp
    then show ?thesis by (simp add: project_def Let_def n ebind_def)
  qed
  show "\<exists>r. project v0 v1 = Inr r" if "broadcast_shapes (shape v0) (shape v1) \<noteq> None"
  proof -
    from that obtain rb where rb: "broadcast_rev (rev (shape v0)) (w # h # c # rev l) = Some rb"
      by (auto simp: broadcast_shapes_def sv1)
    have lrb: "3 \<le> length rb" using broadcast_rev_length[OF rb] by simp
    have "broadcast_shapes (shape (double v0)) (shape v1n) = Some (rev rb)"
      using rb n(2) by (simp add: broadcast_shapes_def)
    then obtain prod where prod: "t_mul (double v0) v1n = Inr prod" "shape prod = rev rb"
      unfolding t_mul_def using broadcast_op_Inr by blast
    have "3 \<le> length (shape prod)" using prod lrb by simp
    then obtain s where s: "sum_last3 prod = Inr s" "shape s = lead_shape (rev rb) @ [1, 1, 1]"
      using sum_last3_shape prod(2) by metis
    have revs: "rev (shape s) = 1 # 1 # 1 # drop 3 rb"
      using rev_keepdim[of "rev rb"] lrb s(2) by simp
    have "broadcast_shapes (shape s) (shape v1n) = Some (rev (w # h # c # drop 3 rb))"
      using keepdim_then_broadcast(1)[OF rb] revs n(2) by (simp add: broadcast_shapes_def)
    then obtain par where par: "t_mul s v1n = Inr par" "shape par = rev (w # h # c # drop 3 rb)"
      unfolding t_mul_def using broadcast_op_Inr by blast
    have "broadcast_rev (rev (shape v0)) (rev (shape par)) \<noteq> None"
      using keepdim_then_broadcast(2)[OF rb] par(2) by simp
    then obtain q where "broadcast_shapes (shape (double v0)) (shape par) = Some q"
      by (auto simp: broadcast_shapes_def)
    then obtain orth where orth: "t_sub (double v0) par = Inr orth"
      unfolding t_sub_def using broadcast_op_Inr by blast
    show ?thesis by (simp add: project_def Let_def n prod s par orth ebind_def)
  qed
qed

text \<open>
  Claim C6, as amended. \<open>project v0 v1\<close> signals a shape-mismatch error if and only if
  \<open>v1\<close> has at least three axes and the shapes of \<open>v0\<close> and \<open>v1\<close> cannot be broadcast
  together (aligned at the last axis, two sizes go together when they are equal or one
  of them is 1). For every pair of identically-shaped tensors with at least three axes
  it succeeds, and so it does for every pair of different shapes that broadcast.
\<close>

theorem project_shape_mismatch:
  "(project v0 v1 = Inl ShapeMismatch)
     = (3 \<le> length (shape v1) \<and> broadcast_shapes (shape v0) (shape v1) = None) \<and>
   (3 \<le> length (shape v1) \<and> shape v0 = shape v1 \<longrightarrow> (\<exists>r. project v0 v1 = Inr r)) \<and>
   (3 \<le> length (shape v1) \<and> broadcast_shapes (shape v0) (shape v1) \<noteq> None \<longrightarrow>
      (\<exists>r. project v0 v1 = Inr r))"
proof (intro conjI impI)
  show "(project v0 v1 = Inl ShapeMismatch)
     = (3 \<le> length (shape v1) \<and> broadcast_shapes (shape v0) (shape v1) = None)"
  proof (cases "3 \<le> length (shape v1)")
    case False
    then have "project v0 v1 = Inl IndexError" by (intro project_outcome(1)) simp
    then show ?thesis using False by simp
  next
    case True
    show ?thesis
    proof (cases "broadcast_shapes (shape v0) (shape v1)")
      case None
      then show ?thesis using True project_outcome(2) by simp
    next
      case (Some b)
      then obtain r where "project v0 v1 = Inr r" using True project_outcome(3) by fastforce
      then show ?thesis using Some by simp
    qed
  qed
next
  assume "3 \<le> length (shape v1) \<and> shape v0 = shape v1"
  then show "\<exists>r. project v0 v1 = Inr r"
    using project_outcome(3)[of v1 v0] by (simp add: broadcast_shapes_same)
next
  assume "3 \<le> length (shape v1) \<and> broadcast_shapes (shape v0) (shape v1) \<noteq> None"
  then show "\<exists>r. project v0 v1 = Inr r" using project_outcome(3) by blast
qed

theorem project_shape_mismatch_witness:
  "3 \<le> length (shape \<lparr>shape = [1, 1, 1, 2], dtype = Float32, data = [1, 0]\<rparr>) \<and>
   shape \<lparr>shape = [1, 1, 1, 2], dtype = Float32, data = [2, 3]\<rparr>
     = shape \<lparr>shape = [1, 1, 1, 2], dtype = Float32, data = [1, 0]\<rparr> \<and>
   project \<lparr>shape = [1, 1, 1, 2], dtype = Float32, data = [2, 3]\<rparr>
           \<lparr>shape = [1, 1, 1, 2], dtype = Float32, data = [1, 0]\<rparr>
     = Inr (\<lparr>shape = [1, 1, 1, 2], dtype = Float32, data = [2, 0]\<rparr>,
            \<lparr>shape = [1, 1, 1, 2], dtype = Float32, data = [0, 3]\<rparr>) \<and>
   broadcast_shapes [1, 1, 1, 3] [1, 1, 1, 2] = None \<and>
   project \<lparr>shape = [1, 1, 1, 3], dtype = Float32, data = [2, 3, 4]\<rparr>
           \<lparr>shape = [1, 1, 1, 2], dtype = Float32, data = [1, 0]\<rparr>
     = Inl ShapeMismatch"
proof -
  let ?a = "\<lparr>shape = [1, 1, 1, 2], dtype = Float32, data = [2, 3]\<rparr>"
  let ?b = "\<lparr>shape = [1, 1, 1, 2], dtype = Float32, data = [1, 0]\<rparr>"
  let ?c = "\<lparr>shape = [1, 1, 1, 3], dtype = Float32, data = [2, 3, 4]\<rparr>"
  have n: "broadcast_shapes [1, 1, 1, 3] [1, 1, 1, 2] = None"
    by (simp add: broadcast_shapes_def)
  have "\<exists>r. project ?a ?b = Inr r" using project_shape_mismatch [of ?a ?b] by simp
  moreover have p: "project ?a ?b
      = Inr (\<lparr>shape = [1, 1, 1, 2], dtype = Float32, data = [2, 0]\<rparr>,
             \<lparr>shape = [1, 1, 1, 2], dtype = Float32, data = [0, 3]\<rparr>)"
    by (simp add: project_eval_simps)
  moreover have "project ?c ?b = Inl ShapeMismatch"
    using project_shape_mismatch [of ?c ?b] n by simp
  ultimately show ?thesis using n by simp
qed

text \<open>The claim as stated fails for two different shapes that broadcast: no error.\<close>

theorem project_broadcasts_different_shapes:
  "shape \<lparr>shape = [2, 1, 1, 1], dtype = Float32, data = [1, 2]\<rparr>
     \<noteq> shape \<lparr>shape = [1, 1, 1, 1], dtype = Float32, data = [1]\<rparr> \<and>
   project \<lparr>shape = [2, 1, 1, 1], dtype = Float32, data = [1, 2]\<rparr>
           \<lparr>shape = [1, 1, 1, 1], dtype = Float32, data = [1]\<rparr>
     = Inr (\<lparr>shape = [2, 1, 1, 1], dtype = Float32, data = [1, 2]\<rparr>,
            \<lparr>shape = [2, 1, 1, 1], dtype = Float32, data = [0, 0]\<rparr>)"
  by (simp add: project_eval_simps)

section \<open>The guidance mixer\<close>

lemma well_formed_tabulate [simp]:
  "well_formed \<lparr>shape = s, dtype = d, data = map g (indices s)\<rparr>"
  by (simp add: well_formed_def length_indices)

lemma repeat_pyrup_contract: "pyrup_contract repeat_pyrup"
  unfolding pyrup_contract_def repeat_pyrup_def
  by (auto split: list.splits if_splits)

lemma subsample_pyramid_contract: "blp_contract subsample_pyramid"
  unfolding blp_contract_def subsample_pyramid_def
  by (auto split: list.splits)

lemma crop_last2_fits:
  assumes "shape p = [b, c, hi, wi]" "h \<le> hi" "w \<le> wi"
  shows "crop_last2 h w p = Inr \<lparr>shape = [b, c, h, w], dtype = dtype p,
                                  data = map (get p) (indices [b, c, h, w])\<rparr>"
  using assms by (simp add: crop_last2_def Let_def min_def)

lemma crop_to_level_fits:
  assumes "shape p = [b, c, hi, wi]" "H div 2 ^ i \<le> hi" "W div 2 ^ i \<le> wi"
  shows "crop_to_level [H, W] i p
           = Inr \<lparr>shape = [b, c, H div 2 ^ i, W div 2 ^ i], dtype = dtype p,
                   data = map (get p) (indices [b, c, H div 2 ^ i, W div 2 ^ i])\<rparr>"
  using crop_last2_fits[OF assms] by (simp add: crop_to_level_def)

lemma broadcast_op_same_facts:
  assumes "shape a = shape b"
  obtains r where "broadcast_op f a b = Inr r" "shape r = shape a" "dtype r = result_type a b"
    "well_formed r" "\<And>idx. idx \<in> set (indices (shape a)) \<Longrightarrow> get r idx = f (get a idx) (get b idx)"
proof -
  let ?r = "\<lparr>shape = shape a, dtype = result_type a b,
             data = map (\<lambda>idx. f (get a idx) (get b idx)) (indices (shape a))\<rparr>"
  have "broadcast_op f a b = Inr ?r" by (rule broadcast_op_same[OF assms])
  moreover have "get ?r idx = f (get a idx) (get b idx)" if "idx \<in> set (indices (shape a))" for idx
    using that by (rule get_tabulate)
  ultimately show ?thesis using that[of ?r] by simp
qed

lemma project_same_facts:
  assumes "shape v0 = [b, c, h, w]" "shape v1 = [b, c, h, w]"
  obtains par orth where "project v0 v1 = Inr (par, orth)"
    "shape par = [b, c, h, w]" "shape orth = [b, c, h, w]"
    "dtype par = dtype v0" "dtype orth = dtype v0" "well_formed par" "well_formed orth"
proof -
  have s0: "shape v0 = [b] @ [c, h, w]" and s1: "shape v1 = [b] @ [c, h, w]"
    using assms by simp_all
  show ?thesis using project_same_shape[OF s0 s1] that by simp
qed

lemma shape_scalar_mul [simp]: "shape (scalar_mul k t) = shape t"
  by (simp add: scalar_mul_def)

lemma dtype_scalar_mul [simp]: "dtype (scalar_mul k t) = dtype t"
  by (simp add: scalar_mul_def)

lemma get_scalar_mul:
  assumes "well_formed t" "idx \<in> set (indices (shape t))"
  shows "get (scalar_mul k t) idx = k * get t idx"
  using assms ravel_less[OF assms(2)] by (simp add: get_def scalar_mul_def well_formed_def)

lemma guide_level_facts:
  assumes pc: "shape pc0 = [b, c, hi, wi]" "H div 2 ^ i \<le> hi" "W div 2 ^ i \<le> wi"
      and pu: "shape pu0 = [b, c, hu, wu]" "H div 2 ^ i \<le> hu" "W div 2 ^ i \<le> wu"
  obtains g p_cond where
    "crop_to_level [H, W] i pc0 = Inr p_cond"
    "guide_level [H, W] i pc0 pu0 scale pw = Inr g"
    "shape g = [b, c, H div 2 ^ i, W div 2 ^ i]"
    "shape p_cond = [b, c, H div 2 ^ i, W div 2 ^ i]"
    "scale = 1 \<Longrightarrow> data g = data p_cond"
    "dtype pu0 = dtype pc0 \<Longrightarrow> scale = 1 \<Longrightarrow> g = p_cond"
proof -
  let ?s = "[b, c, H div 2 ^ i, W div 2 ^ i]"
  let ?pc = "\<lparr>shape = ?s, dtype = dtype pc0, data = map (get pc0) (indices ?s)\<rparr>"
  let ?pu = "\<lparr>shape = ?s, dtype = dtype pu0, data = map (get pu0) (indices ?s)\<rparr>"
  have cc: "crop_to_level [H, W] i pc0 = Inr ?pc" by (rule crop_to_level_fits[OF pc])
  have cu: "crop_to_level [H, W] i pu0 = Inr ?pu" by (rule crop_to_level_fits[OF pu])
  have "shape ?pc = shape ?pu" by simp
  then obtain diff0 where d0: "t_sub ?pc ?pu = Inr diff0" "shape diff0 = ?s"
      "dtype diff0 = result_type ?pc ?pu"
    unfolding t_sub_def by (rule broadcast_op_same_facts[where f = "(-)"]) simp
  obtain par orth where pr: "project diff0 ?pc = Inr (par, orth)"
      "shape par = ?s" "shape orth = ?s" "dtype par = dtype diff0" "dtype orth = dtype diff0"
  proof (rule project_same_facts[of diff0 b c "H div 2 ^ i" "W div 2 ^ i" ?pc, OF d0(2)])
    show "shape ?pc = ?s" by simp
  qed blast
  have "shape (scalar_mul pw par) = shape orth" using pr by simp
  then obtain diff where df: "t_add (scalar_mul pw par) orth = Inr diff" "shape diff = ?s"
      "dtype diff = result_type (scalar_mul pw par) orth" "well_formed diff"
    unfolding t_add_def by (rule broadcast_op_same_facts[where f = "(+)"]) (simp add: pr)
  have "shape ?pc = shape (scalar_mul (scale - 1) diff)" using df by simp
  then obtain g where g: "t_add ?pc (scalar_mul (scale - 1) diff) = Inr g" "shape g = ?s"
      "dtype g = result_type ?pc (scalar_mul (scale - 1) diff)" "well_formed g"
      "\<And>idx. idx \<in> set (indices ?s) \<Longrightarrow>
          get g idx = get ?pc idx + get (scalar_mul (scale - 1) diff) idx"
    unfolding t_add_def by (rule broadcast_op_same_facts[where f = "(+)"]) simp
  have gl: "guide_level [H, W] i pc0 pu0 scale pw = Inr g"
    by (simp add: guide_level_def cc cu d0 pr df g ebind_def)
  have same_data: "data g = data ?pc" if sc: "scale = 1"
  proof (rule tensor_data_eqI)
    show "well_formed g" by (rule g(4))
    show "well_formed ?pc" by simp
    show "shape g = shape ?pc" using g(2) by simp
    fix idx assume "idx \<in> set (indices (shape g))"
    then have i: "idx \<in> set (indices ?s)" using g(2) by simp
    then have "get (scalar_mul (scale - 1) diff) idx = 0"
      using get_scalar_mul[OF df(4), of idx "scale - 1"] df(2) sc by simp
    then show "get g idx = get ?pc idx" using g(5)[OF i] by simp
  qed
  have ident: "g = ?pc" if dt: "dtype pu0 = dtype pc0" and sc: "scale = 1"
  proof -
    have "dtype diff0 = dtype pc0" using d0(3) dt by (simp add: result_type_same)
    then have "dtype diff = dtype pc0" using df(3) pr by (simp add: result_type_same)
    then have "dtype g = dtype ?pc" using g(3) by (simp add: result_type_same)
    then show ?thesis using same_data[OF sc] g(2) by simp
  qed
  have spc: "shape ?pc = ?s" by simp
  show ?thesis using that[OF cc gl g(2) spc same_data ident] by blast
qed

lemma guidance_loop_facts:
  assumes "\<forall>j < length zs. level_fits b c H W (i + j) (fst (zs ! j)) \<and>
                             level_fits b c H W (i + j) (fst (snd (zs ! j)))"
  shows "\<exists>gp. guidance_loop [H, W] i zs = Inr gp \<and> length gp = length zs \<and>
           (\<forall>j < length zs.
              shape (gp ! j) = [b, c, H div 2 ^ (i + j), W div 2 ^ (i + j)] \<and>
              (fst (snd (snd (zs ! j))) = 1 \<longrightarrow>
                 (\<exists>p. crop_to_level [H, W] (i + j) (fst (zs ! j)) = Inr p \<and>
                      shape (gp ! j) = shape p \<and> data (gp ! j) = data p \<and>
                      (dtype (fst (snd (zs ! j))) = dtype (fst (zs ! j)) \<longrightarrow> gp ! j = p))))"
  using assms
proof (induction zs arbitrary: i)
  case Nil
  then show ?case by simp
next
  case (Cons z zs)
  obtain pc0 pu0 scale pw where z: "z = (pc0, pu0, scale, pw)" by (cases z) auto
  have "level_fits b c H W i pc0" "level_fits b c H W i pu0"
    using Cons.prems[rule_format, of 0] z by simp_all
  then obtain hi wi hu wu where
    pc: "shape pc0 = [b, c, hi, wi]" "H div 2 ^ i \<le> hi" "W div 2 ^ i \<le> wi" and
    pu: "shape pu0 = [b, c, hu, wu]" "H div 2 ^ i \<le> hu" "W div 2 ^ i \<le> wu"
    unfolding level_fits_def by blast
  obtain g p_cond where g:
    "crop_to_level [H, W] i pc0 = Inr p_cond"
    "guide_level [H, W] i pc0 pu0 scale pw = Inr g"
    "shape g = [b, c, H div 2 ^ i, W div 2 ^ i]"
    "shape p_cond = [b, c, H div 2 ^ i, W div 2 ^ i]"
    "scale = 1 \<Longrightarrow> data g = data p_cond"
    "dtype pu0 = dtype pc0 \<Longrightarrow> scale = 1 \<Longrightarrow> g = p_cond"
    by (rule guide_level_facts[OF pc pu, of scale pw]) blast
  have "\<forall>j < length zs. level_fits b c H W (Suc i + j) (fst (zs ! j)) \<and>
                          level_fits b c H W (Suc i + j) (fst (snd (zs ! j)))"
    using Cons.prems[rule_format, of "Suc j" for j] by simp
  from Cons.IH[OF this] obtain gp where gp:
    "guidance_loop [H, W] (Suc i) zs = Inr gp" "length gp = length zs"
    "\<forall>j < length zs.
        shape (gp ! j) = [b, c, H div 2 ^ (Suc i + j), W div 2 ^ (Suc i + j)] \<and>
        (fst (snd (snd (zs ! j))) = 1 \<longrightarrow>
           (\<exists>p. crop_to_level [H, W] (Suc i + j) (fst (zs ! j)) = Inr p \<and>
                shape (gp ! j) = shape p \<and> data (gp ! j) = data p \<and>
                (dtype (fst (snd (zs ! j))) = dtype (fst (zs ! j)) \<longrightarrow> gp ! j = p)))"
    by blast
  have run: "guidance_loop [H, W] i (z # zs) = Inr (g # gp)"
    by (simp add: z g(2) gp(1) ebind_def)
  have per_level: "shape ((g # gp) ! j) = [b, c, H div 2 ^ (i + j), W div 2 ^ (i + j)] \<and>
        (fst (snd (snd ((z # zs) ! j))) = 1 \<longrightarrow>
           (\<exists>p. crop_to_level [H, W] (i + j) (fst ((z # zs) ! j)) = Inr p \<and>
                shape ((g # gp) ! j) = shape p \<and> data ((g # gp) ! j) = data p \<and>
                (dtype (fst (snd ((z # zs) ! j))) = dtype (fst ((z # zs) ! j)) \<longrightarrow>
                   (g # gp) ! j = p)))"
    if "j < length (z # zs)" for j
  proof (cases j)
    case 0
    then show ?thesis using g z by auto
  next
    case (Suc k)
    then have "k < length zs" using that by simp
    then show ?thesis using gp(3)[rule_format, of k] Suc by auto
  qed
  have len: "length (g # gp) = length (z # zs)" using gp(2) by simp
  show ?case using run len per_level by blast
qed

lemma div_pow_Suc: "(H::nat) div 2 ^ Suc n = H div 2 ^ n div 2"
  using div_mult2_eq[of H "2 ^ n" 2] by (simp add: mult.commute)

lemma fold_Inl:
  "fold (\<lambda>p acc. ebind acc (f p)) ps (Inl e) = Inl e"
  by (induction ps) (simp_all add: ebind_def)

lemma add_upsampled_shape:
  assumes up: "shape up = [b, c, 2 * h', 2 * w']" "0 < h'" "0 < w'"
    and p: "shape p = [b, c, h, w]" "h' = h div 2" "w' = w div 2"
    and r: "t_add up p = Inr r"
  shows "shape r = [b, c, h, w]" and "h = 2 * h'" and "w = 2 * w'"
proof -
  have hw: "h \<noteq> 1" "w \<noteq> 1" "2 * h' \<noteq> 1" "2 * w' \<noteq> 1" using up p by auto
  from r obtain s where s: "broadcast_shapes (shape up) (shape p) = Some s" "shape r = s"
    by (auto simp: t_add_def broadcast_op_def split: option.splits)
  then show "shape r = [b, c, h, w]" using hw unfolding up p(1)
    by (auto simp: broadcast_shapes_def split: if_splits)
  show "h = 2 * h'" using s(1) hw unfolding up p(1)
    by (auto simp: broadcast_shapes_def split: if_splits)
  show "w = 2 * w'" using s(1) hw unfolding up p(1)
    by (auto simp: broadcast_shapes_def split: if_splits)
qed

lemma halving_chain:
  assumes "\<forall>j < n. (H::nat) div 2 ^ j = 2 * (H div 2 ^ Suc j)"
  shows "H = 2 ^ n * (H div 2 ^ n)"
  using assms
proof (induction n)
  case 0
  show ?case by simp
next
  case (Suc n)
  then have "H = 2 ^ n * (H div 2 ^ n)" by simp
  also have "H div 2 ^ n = 2 * (H div 2 ^ Suc n)" using Suc.prems by simp
  finally show ?case by simp
qed

lemma reconstruct_loop_shape:
  assumes c: "pyrup_contract pyrup"
    and "shape img = [b, c, H div 2 ^ length finer, W div 2 ^ length finer]"
    and "\<forall>j < length finer. shape (finer ! j)
            = [b, c, H div 2 ^ (length finer - 1 - j), W div 2 ^ (length finer - 1 - j)]"
    and "build_image_from_pyramid_loop pyrup img finer = Inr out"
  shows "shape out = [b, c, H, W] \<and>
         (\<forall>j < length finer. H div 2 ^ j = 2 * (H div 2 ^ Suc j) \<and>
                                W div 2 ^ j = 2 * (W div 2 ^ Suc j)) \<and>
         (finer \<noteq> [] \<longrightarrow> 0 < H div 2 ^ length finer \<and> 0 < W div 2 ^ length finer)"
  using assms(2-)
proof (induction finer arbitrary: img)
  case Nil
  then show ?case by (simp add: build_image_from_pyramid_loop_def)
next
  case (Cons p ps)
  let ?n = "length ps"
  let ?step = "\<lambda>p acc. ebind acc (\<lambda>im. ebind (pyrup im) (\<lambda>up. t_add up p))"
  have sp: "shape p = [b, c, H div 2 ^ ?n, W div 2 ^ ?n]"
    using Cons.prems(2)[rule_format, of 0] by simp
  have run: "fold ?step ps (?step p (Inr img)) = Inr out"
    using Cons.prems(3) by (simp add: build_image_from_pyramid_loop_def)
  obtain img' where img': "?step p (Inr img) = Inr img'"
  proof (cases "?step p (Inr img)")
    case (Inl e)
    then have False using run fold_Inl[of "\<lambda>p im. ebind (pyrup im) (\<lambda>up. t_add up p)" ps e] by simp
    then show ?thesis ..
  next
    case (Inr v)
    then show ?thesis using that by blast
  qed
  then obtain up where up: "pyrup img = Inr up" "t_add up p = Inr img'"
    by (auto simp: ebind_def split: sum.splits)
  from c up(1) obtain b' c' h' w' where
    k: "shape img = [b', c', h', w']" "0 < h'" "0 < w'" "shape up = [b', c', 2 * h', 2 * w']"
    unfolding pyrup_contract_def by blast
  have eqs: "b' = b" "c' = c" "h' = (H div 2 ^ ?n) div 2" "w' = (W div 2 ^ ?n) div 2"
    using k(1) Cons.prems(1) by (simp_all only: list.inject length_Cons div_pow_Suc)
  have ku: "shape up = [b, c, 2 * h', 2 * w']" using k(4) eqs by simp
  note a = add_upsampled_shape[OF ku k(2) k(3) sp eqs(3) eqs(4) up(2)]
  have top: "H div 2 ^ ?n = 2 * (H div 2 ^ Suc ?n)" "W div 2 ^ ?n = 2 * (W div 2 ^ Suc ?n)"
    using a(2,3) eqs(3,4) by (simp_all only: div_pow_Suc)
  have pos: "0 < H div 2 ^ Suc ?n" "0 < W div 2 ^ Suc ?n"
    using k(2,3) eqs(3,4) by (simp_all only: div_pow_Suc)
  have rest: "\<forall>j < ?n. shape (ps ! j) = [b, c, H div 2 ^ (?n - 1 - j), W div 2 ^ (?n - 1 - j)]"
    using Cons.prems(2)[rule_format, of "Suc j" for j] by simp
  have "build_image_from_pyramid_loop pyrup img' ps = Inr out"
    using run img' by (simp add: build_image_from_pyramid_loop_def)
  from Cons.IH[OF a(1) rest this]
  have ih: "shape out = [b, c, H, W]"
    "\<forall>j < ?n. H div 2 ^ j = 2 * (H div 2 ^ Suc j) \<and> W div 2 ^ j = 2 * (W div 2 ^ Suc j)"
    by simp_all
  have "H div 2 ^ j = 2 * (H div 2 ^ Suc j) \<and> W div 2 ^ j = 2 * (W div 2 ^ Suc j)"
    if "j < length (p # ps)" for j
  proof (cases "j = ?n")
    case True
    then show ?thesis using top by simp
  next
    case False
    then have "j < ?n" using that by simp
    then show ?thesis using ih(2) by simp
  qed
  then show ?case using ih(1) pos by simp
qed

lemma reconstruct_shape:
  assumes c: "pyrup_contract pyrup"
    and g: "\<forall>j < length gp. shape (gp ! j) = [b, c, H div 2 ^ j, W div 2 ^ j]"
    and r: "build_image_from_pyramid pyrup gp = Inr out"
  shows "shape out = [b, c, H, W]"
    and "gp \<noteq> []"
    and "2 ^ (length gp - 1) dvd H" and "2 ^ (length gp - 1) dvd W"
    and "1 < length gp \<Longrightarrow> 0 < H div 2 ^ (length gp - 1) \<and> 0 < W div 2 ^ (length gp - 1)"
proof -
  show ne: "gp \<noteq> []" using r by (auto simp: build_image_from_pyramid_def)
  let ?m = "length gp - 1"
  let ?finer = "rev (butlast gp)"
  have lf: "length ?finer = ?m" by simp
  have run: "build_image_from_pyramid_loop pyrup (last gp) ?finer = Inr out"
    using r ne by (simp add: build_image_from_pyramid_def)
  have "shape (last gp) = [b, c, H div 2 ^ ?m, W div 2 ^ ?m]"
    using g[rule_format, of ?m] ne by (simp add: last_conv_nth)
  then have s: "shape (last gp) = [b, c, H div 2 ^ length ?finer, W div 2 ^ length ?finer]"
    by simp
  have f: "\<forall>j < length ?finer. shape (?finer ! j)
        = [b, c, H div 2 ^ (length ?finer - 1 - j), W div 2 ^ (length ?finer - 1 - j)]"
  proof (intro allI impI)
    fix j assume j: "j < length ?finer"
    then have "?finer ! j = butlast gp ! (?m - 1 - j)" by (simp add: rev_nth)
    also have "\<dots> = gp ! (?m - 1 - j)" using j by (simp add: nth_butlast)
    finally show "shape (?finer ! j)
        = [b, c, H div 2 ^ (length ?finer - 1 - j), W div 2 ^ (length ?finer - 1 - j)]"
      using g[rule_format, of "?m - 1 - j"] j by simp
  qed
  note l = reconstruct_loop_shape[OF c s f run]
  show "shape out = [b, c, H, W]" using l by simp
  have hc: "\<forall>j < ?m. H div 2 ^ j = 2 * (H div 2 ^ Suc j)"
   and wc: "\<forall>j < ?m. W div 2 ^ j = 2 * (W div 2 ^ Suc j)"
    using l lf by simp_all
  show "2 ^ ?m dvd H" using halving_chain[OF hc] by (metis dvd_triv_left)
  show "2 ^ ?m dvd W" using halving_chain[OF wc] by (metis dvd_triv_left)
  show "0 < H div 2 ^ ?m \<and> 0 < W div 2 ^ ?m" if "1 < length gp"
  proof -
    have "?finer \<noteq> []" using that by (cases gp rule: rev_cases) auto
    then show ?thesis using l lf by simp
  qed
qed

lemma guided_pyramid_facts:
  assumes c: "blp_contract blp"
    and sh: "shape pred_uncond = shape pred_cond"
    and pc: "blp pred_cond (length scales) = Inr pc"
    and pu: "blp pred_uncond (length scales) = Inr pu"
  obtains b ch H W gp where
    "shape pred_cond = [b, ch, H, W]"
    "guided_pyramid blp pred_cond pred_uncond scales (Some weights) = Inr gp"
    "length gp = min (length scales) (length weights)"
    "\<forall>j < length gp. shape (gp ! j) = [b, ch, H div 2 ^ j, W div 2 ^ j]"
    "\<forall>j < length gp. scales ! j = 1 \<longrightarrow>
        (\<exists>p. crop_to_level [H, W] j (pc ! j) = Inr p \<and>
             shape (gp ! j) = shape p \<and> data (gp ! j) = data p \<and>
             (dtype pred_uncond = dtype pred_cond \<longrightarrow> gp ! j = p))"
proof -
  let ?L = "length scales"
  from c pc obtain b ch H W where
    lpc: "length pc = max 1 ?L" and s: "shape pred_cond = [b, ch, H, W]" and
    fpc: "\<forall>i < max 1 ?L. well_formed (pc ! i) \<and> dtype (pc ! i) = dtype pred_cond \<and>
            (\<exists>hi wi. shape (pc ! i) = [b, ch, hi, wi] \<and> H div 2 ^ i \<le> hi \<and> W div 2 ^ i \<le> wi)"
    unfolding blp_contract_def by blast
  from c pu obtain b' ch' H' W' where
    lpu: "length pu = max 1 ?L" and s': "shape pred_uncond = [b', ch', H', W']" and
    fpu': "\<forall>i < max 1 ?L. well_formed (pu ! i) \<and> dtype (pu ! i) = dtype pred_uncond \<and>
            (\<exists>hi wi. shape (pu ! i) = [b', ch', hi, wi] \<and> H' div 2 ^ i \<le> hi \<and> W' div 2 ^ i \<le> wi)"
    unfolding blp_contract_def by blast
  have e: "b' = b" "ch' = ch" "H' = H" "W' = W" using s s' sh by simp_all
  let ?zs = "zip pc (zip pu (zip scales weights))"
  have lz: "length ?zs = min ?L (length weights)" using lpc lpu by simp
  have nz: "?zs ! j = (pc ! j, pu ! j, scales ! j, weights ! j)" if "j < length ?zs" for j
    using that by simp
  have fits: "\<forall>j < length ?zs. level_fits b ch H W (0 + j) (fst (?zs ! j)) \<and>
                                 level_fits b ch H W (0 + j) (fst (snd (?zs ! j)))"
  proof (intro allI impI)
    fix j assume j: "j < length ?zs"
    then have jl: "j < max 1 ?L" using lz by simp
    show "level_fits b ch H W (0 + j) (fst (?zs ! j)) \<and>
          level_fits b ch H W (0 + j) (fst (snd (?zs ! j)))"
      using fpc[rule_format, OF jl] fpu'[rule_format, OF jl] e nz[OF j]
      by (simp add: level_fits_def)
  qed
  from guidance_loop_facts[OF fits] obtain gp where gp:
    "guidance_loop [H, W] 0 ?zs = Inr gp" "length gp = length ?zs"
    "\<forall>j < length ?zs.
        shape (gp ! j) = [b, ch, H div 2 ^ (0 + j), W div 2 ^ (0 + j)] \<and>
        (fst (snd (snd (?zs ! j))) = 1 \<longrightarrow>
           (\<exists>p. crop_to_level [H, W] (0 + j) (fst (?zs ! j)) = Inr p \<and>
                shape (gp ! j) = shape p \<and> data (gp ! j) = data p \<and>
                (dtype (fst (snd (?zs ! j))) = dtype (fst (?zs ! j)) \<longrightarrow> gp ! j = p)))"
    by blast
  have run: "guided_pyramid blp pred_cond pred_uncond scales (Some weights) = Inr gp"
    using gp(1) by (simp add: guided_pyramid_def Let_def pc pu ebind_def s)
  have shapes: "\<forall>j < length gp. shape (gp ! j) = [b, ch, H div 2 ^ j, W div 2 ^ j]"
    using gp(2,3) by simp
  have ident: "\<forall>j < length gp. scales ! j = 1 \<longrightarrow>
        (\<exists>p. crop_to_level [H, W] j (pc ! j) = Inr p \<and>
             shape (gp ! j) = shape p \<and> data (gp ! j) = data p \<and>
             (dtype pred_uncond = dtype pred_cond \<longrightarrow> gp ! j = p))"
  proof (intro allI impI)
    fix j assume j: "j < length gp" and h: "scales ! j = 1"
    have jz: "j < length ?zs" using j gp(2) by simp
    then have jl: "j < max 1 ?L" using lz by simp
    have dt: "dtype (pu ! j) = dtype pred_uncond" "dtype (pc ! j) = dtype pred_cond"
      using fpc[rule_format, OF jl] fpu'[rule_format, OF jl] by simp_all
    from gp(3)[rule_format, OF jz] nz[OF jz] h obtain p where
      "crop_to_level [H, W] j (pc ! j) = Inr p" "shape (gp ! j) = shape p" "data (gp ! j) = data p"
      "dtype (pu ! j) = dtype (pc ! j) \<longrightarrow> gp ! j = p"
      by auto
    then show "\<exists>p. crop_to_level [H, W] j (pc ! j) = Inr p \<and>
             shape (gp ! j) = shape p \<and> data (gp ! j) = data p \<and>
             (dtype pred_uncond = dtype pred_cond \<longrightarrow> gp ! j = p)"
      using dt by auto
  qed
  show ?thesis using that[OF s run _ shapes ident] gp(2) lz by simp
qed

lemma guided_pyramid_default_weights:
  "guided_pyramid blp pred_cond pred_uncond scales None
     = guided_pyramid blp pred_cond pred_uncond scales (Some (replicate (length scales) 1))"
  by (simp add: guided_pyramid_def)

lemma guided_pyramid_success:
  assumes "guided_pyramid blp pred_cond pred_uncond scales pws = Inr gp"
  obtains pc pu where "blp pred_cond (length scales) = Inr pc" "blp pred_uncond (length scales) = Inr pu"
  using assms by (auto simp: guided_pyramid_def Let_def ebind_def split: sum.splits)

lemma zip_take_length: "zip xs (take (length xs) ys) = zip xs ys"
proof (induction xs arbitrary: ys)
  case Nil
  show ?case by simp
next
  case (Cons x xs)
  then show ?case by (cases ys) simp_all
qed

lemmas mixer_eval_simps =
  laplacian_guidance_def guided_pyramid_def guide_level_def crop_to_level_def crop_last2_def
  build_image_from_pyramid_def build_image_from_pyramid_loop_def
  subsample_pyramid_def repeat_pyrup_def Let_def

text \<open>
  Claim C1. Let \<open>pred_cond\<close> and \<open>pred_uncond\<close> have one shape, and let the library
  return the two pyramids of \<open>L\<close> levels. With \<open>guidance_scale = [1.0] * L\<close> and
  \<open>parallel_weights = [1.0] * L\<close> the mixing loop raises nothing and every guided level
  has the shape and the elements of the cropped conditional level, the term
  \<open>(scale - 1) * diff\<close> being zero; with inputs of one element type it is that level.
  The output is the reconstruction of these levels, cast to the element type of
  \<open>pred_cond\<close>: only the pyramid round trip separates it from \<open>pred_cond\<close>.
  (Exact arithmetic.)
\<close>

theorem laplacian_guidance_identity:
  assumes "blp_contract blp"
    and "shape pred_uncond = shape pred_cond"
    and "blp pred_cond L = Inr cond_pyramid" "blp pred_uncond L = Inr uncond_pyramid"
  shows "case guided_pyramid blp pred_cond pred_uncond (replicate L 1) (Some (replicate L 1)) of
           Inl e \<Rightarrow> False
         | Inr guided \<Rightarrow>
             length guided = L \<and>
             (\<forall>i < L.
                case crop_to_level (drop (length (shape pred_cond) - 2) (shape pred_cond)) i
                       (cond_pyramid ! i) of
                  Inl e \<Rightarrow> False
                | Inr p_cond \<Rightarrow>
                    shape (guided ! i) = shape p_cond \<and> data (guided ! i) = data p_cond \<and>
                    (dtype pred_uncond = dtype pred_cond \<longrightarrow> guided ! i = p_cond)) \<and>
             laplacian_guidance blp pyrup pred_cond pred_uncond (replicate L 1) (Some (replicate L 1))
               = ebind (build_image_from_pyramid pyrup guided)
                   (\<lambda>img. Inr (to_dtype (dtype pred_cond) img))"
proof -
  let ?ones = "replicate L (1::real)"
  have pc: "blp pred_cond (length ?ones) = Inr cond_pyramid"
   and pu: "blp pred_uncond (length ?ones) = Inr uncond_pyramid"
    using assms(3,4) by simp_all
  obtain b ch H W gp where f:
    "shape pred_cond = [b, ch, H, W]"
    "guided_pyramid blp pred_cond pred_uncond ?ones (Some ?ones) = Inr gp"
    "length gp = min (length ?ones) (length ?ones)"
    "\<forall>j < length gp. ?ones ! j = 1 \<longrightarrow>
        (\<exists>p. crop_to_level [H, W] j (cond_pyramid ! j) = Inr p \<and>
             shape (gp ! j) = shape p \<and> data (gp ! j) = data p \<and>
             (dtype pred_uncond = dtype pred_cond \<longrightarrow> gp ! j = p))"
    by (rule guided_pyramid_facts[OF assms(1,2) pc pu, of ?ones]) blast
  have len: "length gp = L" using f(3) by simp
  have crop: "case crop_to_level (drop (length (shape pred_cond) - 2) (shape pred_cond)) i
                     (cond_pyramid ! i) of
                Inl e \<Rightarrow> False
              | Inr p_cond \<Rightarrow>
                  shape (gp ! i) = shape p_cond \<and> data (gp ! i) = data p_cond \<and>
                  (dtype pred_uncond = dtype pred_cond \<longrightarrow> gp ! i = p_cond)" if "i < L" for i
  proof -
    from f(4)[rule_format, of i] that len obtain p where
      "crop_to_level [H, W] i (cond_pyramid ! i) = Inr p"
      "shape (gp ! i) = shape p" "data (gp ! i) = data p"
      "dtype pred_uncond = dtype pred_cond \<longrightarrow> gp ! i = p"
      by auto
    then show ?thesis using f(1) by simp
  qed
  have "laplacian_guidance blp pyrup pred_cond pred_uncond ?ones (Some ?ones)
          = ebind (build_image_from_pyramid pyrup gp) (\<lambda>img. Inr (to_dtype (dtype pred_cond) img))"
    by (simp add: laplacian_guidance_def f(2) ebind_def)
  then show ?thesis unfolding f(2) using len crop by simp
qed

theorem laplacian_guidance_identity_witness:
  "blp_contract subsample_pyramid \<and>
   subsample_pyramid \<lparr>shape = [1, 1, 2, 2], dtype = Float32, data = [1, 2, 3, 4]\<rparr> 2
     = Inr [\<lparr>shape = [1, 1, 2, 2], dtype = Float32, data = [1, 2, 3, 4]\<rparr>,
            \<lparr>shape = [1, 1, 1, 1], dtype = Float32, data = [1]\<rparr>] \<and>
   subsample_pyramid \<lparr>shape = [1, 1, 2, 2], dtype = Float32, data = [0, 1, 0, 1]\<rparr> 2
     = Inr [\<lparr>shape = [1, 1, 2, 2], dtype = Float32, data = [0, 1, 0, 1]\<rparr>,
            \<lparr>shape = [1, 1, 1, 1], dtype = Float32, data = [0]\<rparr>] \<and>
   guided_pyramid subsample_pyramid
       \<lparr>shape = [1, 1, 2, 2], dtype = Float32, data = [1, 2, 3, 4]\<rparr>
       \<lparr>shape = [1, 1, 2, 2], dtype = Float32, data = [0, 1, 0, 1]\<rparr>
       (replicate 2 1) (Some (replicate 2 1))
     = Inr [\<lparr>shape = [1, 1, 2, 2], dtype = Float32, data = [1, 2, 3, 4]\<rparr>,
            \<lparr>shape = [1, 1, 1, 1], dtype = Float32, data = [1]\<rparr>] \<and>
   laplacian_guidance subsample_pyramid repeat_pyrup
       \<lparr>shape = [1, 1, 2, 2], dtype = Float32, data = [1, 2, 3, 4]\<rparr>
       \<lparr>shape = [1, 1, 2, 2], dtype = Float32, data = [0, 1, 0, 1]\<rparr>
       (replicate 2 1) (Some (replicate 2 1))
     = Inr \<lparr>shape = [1, 1, 2, 2], dtype = Float32, data = [2, 3, 4, 5]\<rparr>"
proof -
  let ?c = "\<lparr>shape = [1, 1, 2, 2], dtype = Float32, data = [1, 2, 3, 4]\<rparr>"
  let ?u = "\<lparr>shape = [1, 1, 2, 2], dtype = Float32, data = [0, 1, 0, 1]\<rparr>"
  let ?c1 = "\<lparr>shape = [1, 1, 1, 1], dtype = Float32, data = [1]\<rparr>"
  let ?u1 = "\<lparr>shape = [1, 1, 1, 1], dtype = Float32, data = [0]\<rparr>"
  have pc: "subsample_pyramid ?c 2 = Inr [?c, ?c1]"
    by (simp add: subsample_pyramid_def tensor_eval_simps)
  have pu: "subsample_pyramid ?u 2 = Inr [?u, ?u1]"
    by (simp add: subsample_pyramid_def tensor_eval_simps)
  have c0: "crop_to_level (drop (length (shape ?c) - 2) (shape ?c)) 0 ?c = Inr ?c"
    by (simp add: crop_to_level_def crop_last2_def tensor_eval_simps)
  have c1: "crop_to_level (drop (length (shape ?c) - 2) (shape ?c)) 1 ?c1 = Inr ?c1"
    by (simp add: crop_to_level_def crop_last2_def tensor_eval_simps)
  have rec: "ebind (build_image_from_pyramid repeat_pyrup [?c, ?c1])
                (\<lambda>img. Inr (to_dtype (dtype ?c) img))
             = Inr \<lparr>shape = [1, 1, 2, 2], dtype = Float32, data = [2, 3, 4, 5]\<rparr>"
    by (simp add: mixer_eval_simps tensor_eval_simps)
  note t = laplacian_guidance_identity [OF subsample_pyramid_contract _ pc pu,
             where pyrup = repeat_pyrup]
  obtain gp where gp:
    "guided_pyramid subsample_pyramid ?c ?u (replicate 2 1) (Some (replicate 2 1)) = Inr gp"
    "length gp = 2"
    "\<forall>i < 2. case crop_to_level (drop (length (shape ?c) - 2) (shape ?c)) i ([?c, ?c1] ! i) of
                Inl e \<Rightarrow> False
              | Inr p_cond \<Rightarrow>
                  shape (gp ! i) = shape p_cond \<and> data (gp ! i) = data p_cond \<and>
                  (dtype ?u = dtype ?c \<longrightarrow> gp ! i = p_cond)"
    "laplacian_guidance subsample_pyramid repeat_pyrup ?c ?u (replicate 2 1) (Some (replicate 2 1))
       = ebind (build_image_from_pyramid repeat_pyrup gp) (\<lambda>img. Inr (to_dtype (dtype ?c) img))"
    using t by (auto split: sum.splits)
  have "gp ! 0 = ?c" using gp(3)[rule_format, of 0] c0 by simp
  moreover have "gp ! 1 = ?c1" using gp(3)[rule_format, of 1] c1 by simp
  ultimately have "gp = [?c, ?c1]"
    using gp(2) by (intro nth_equalityI) (auto simp: less_Suc_eq numeral_2_eq_2)
  then show ?thesis using gp(1,4) rec pc pu subsample_pyramid_contract by simp
qed

text \<open>
  Claim C3. Under the library's contracts, for every pair of equal-shaped inputs, every
  \<open>guidance_scale\<close> list and every parallel-weight argument: a tensor returned by
  \<open>laplacian_guidance\<close> has the shape of \<open>pred_cond\<close>, its spatial height and width
  included, and the element type of \<open>pred_cond\<close>.
\<close>

theorem laplacian_guidance_shape_dtype:
  assumes "blp_contract blp" "pyrup_contract pyrup"
    and "shape pred_uncond = shape pred_cond"
    and "laplacian_guidance blp pyrup pred_cond pred_uncond scales par_weights = Inr out"
  shows "shape out = shape pred_cond \<and> dtype out = dtype pred_cond"
proof -
  define weights where "weights = (case par_weights of None \<Rightarrow> replicate (length scales) 1 | Some ws \<Rightarrow> ws)"
  have gw: "guided_pyramid blp pred_cond pred_uncond scales par_weights
          = guided_pyramid blp pred_cond pred_uncond scales (Some weights)"
    by (cases par_weights) (simp_all add: weights_def guided_pyramid_default_weights)
  from assms(4) obtain gp img where
    g: "guided_pyramid blp pred_cond pred_uncond scales par_weights = Inr gp" and
    r: "build_image_from_pyramid pyrup gp = Inr img" and
    o: "out = to_dtype (dtype pred_cond) img"
    by (auto simp: laplacian_guidance_def ebind_def split: sum.splits)
  from g obtain pc pu where
    pc: "blp pred_cond (length scales) = Inr pc" and pu: "blp pred_uncond (length scales) = Inr pu"
    by (rule guided_pyramid_success)
  obtain b ch H W gp' where f:
    "shape pred_cond = [b, ch, H, W]"
    "guided_pyramid blp pred_cond pred_uncond scales (Some weights) = Inr gp'"
    "\<forall>j < length gp'. shape (gp' ! j) = [b, ch, H div 2 ^ j, W div 2 ^ j]"
    by (rule guided_pyramid_facts[OF assms(1,3) pc pu, of weights]) blast
  have "gp' = gp" using g gw f(2) by simp
  then have "shape img = [b, ch, H, W]"
    using reconstruct_shape(1)[OF assms(2) _ r, of b ch H W] f(3) by simp
  then show ?thesis using o f(1) by (simp add: to_dtype_def)
qed

theorem laplacian_guidance_shape_dtype_witness:
  "blp_contract subsample_pyramid \<and> pyrup_contract repeat_pyrup \<and>
   shape \<lparr>shape = [1, 1, 2, 2], dtype = Float16, data = [0, 1, 0, 0]\<rparr>
     = shape \<lparr>shape = [1, 1, 2, 2], dtype = Float32, data = [1, 0, 0, 0]\<rparr> \<and>
   laplacian_guidance subsample_pyramid repeat_pyrup
       \<lparr>shape = [1, 1, 2, 2], dtype = Float32, data = [1, 0, 0, 0]\<rparr>
       \<lparr>shape = [1, 1, 2, 2], dtype = Float16, data = [0, 1, 0, 0]\<rparr>
       [2, 1] (Some [1, 1])
     = Inr \<lparr>shape = [1, 1, 2, 2], dtype = Float32, data = [3, 0, 1, 1]\<rparr> \<and>
   shape \<lparr>shape = [1, 1, 2, 2], dtype = Float32, data = [3, 0, 1, 1]\<rparr>
     = shape \<lparr>shape = [1, 1, 2, 2], dtype = Float32, data = [1, 0, 0, 0]\<rparr> \<and>
   dtype \<lparr>shape = [1, 1, 2, 2], dtype = Float32, data = [3, 0, 1, 1]\<rparr>
     = dtype \<lparr>shape = [1, 1, 2, 2], dtype = Float32, data = [1, 0, 0, 0]\<rparr>"
proof -
  let ?c = "\<lparr>shape = [1, 1, 2, 2], dtype = Float32, data = [1, 0, 0, 0]\<rparr>"
  let ?u = "\<lparr>shape = [1, 1, 2, 2], dtype = Float16, data = [0, 1, 0, 0]\<rparr>"
  let ?o = "\<lparr>shape = [1, 1, 2, 2], dtype = Float32, data = [3, 0, 1, 1]\<rparr>"
  have s: "shape ?u = shape ?c" by simp
  have run: "laplacian_guidance subsample_pyramid repeat_pyrup ?c ?u [2, 1] (Some [1, 1]) = Inr ?o"
    by (simp add: mixer_eval_simps project_eval_simps)
  have "shape ?o = shape ?c \<and> dtype ?o = dtype ?c"
    by (rule laplacian_guidance_shape_dtype
          [OF subsample_pyramid_contract repeat_pyrup_contract s run])
  then show ?thesis using run subsample_pyramid_contract repeat_pyrup_contract by simp
qed

text \<open>
  When does the mixer return at all? Only for non-empty lists of scales and weights,
  and only when both spatial sizes of the input halve evenly through the levels that
  are mixed: a level is cropped to the floor of the halved size, the upsampling doubles
  it, and the two must meet again in the reconstruction.
\<close>

lemma laplacian_guidance_returns_only_if:
  assumes "blp_contract blp" "pyrup_contract pyrup"
    and "shape pred_uncond = shape pred_cond"
    and "laplacian_guidance blp pyrup pred_cond pred_uncond scales (Some weights) = Inr out"
  shows "scales \<noteq> [] \<and> weights \<noteq> [] \<and>
         2 ^ (min (length scales) (length weights) - 1) dvd shape pred_cond ! 2 \<and>
         2 ^ (min (length scales) (length weights) - 1) dvd shape pred_cond ! 3"
proof -
  from assms(4) obtain gp img where
    g: "guided_pyramid blp pred_cond pred_uncond scales (Some weights) = Inr gp" and
    r: "build_image_from_pyramid pyrup gp = Inr img"
    by (auto simp: laplacian_guidance_def ebind_def split: sum.splits)
  from g obtain pc pu where
    pc: "blp pred_cond (length scales) = Inr pc" and pu: "blp pred_uncond (length scales) = Inr pu"
    by (rule guided_pyramid_success)
  obtain b ch H W gp' where f:
    "shape pred_cond = [b, ch, H, W]"
    "guided_pyramid blp pred_cond pred_uncond scales (Some weights) = Inr gp'"
    "length gp' = min (length scales) (length weights)"
    "\<forall>j < length gp'. shape (gp' ! j) = [b, ch, H div 2 ^ j, W div 2 ^ j]"
    by (rule guided_pyramid_facts[OF assms(1,3) pc pu, of weights]) blast
  have e: "gp' = gp" using g f(2) by simp
  have sh: "\<forall>j < length gp. shape (gp ! j) = [b, ch, H div 2 ^ j, W div 2 ^ j]"
    using f(4) e by simp
  note rs = reconstruct_shape[OF assms(2) sh r]
  have "scales \<noteq> []"
  proof
    assume "scales = []"
    then have "length gp = 0" using f(3) e by simp
    then show False using rs(2) by simp
  qed
  moreover have "weights \<noteq> []"
  proof
    assume "weights = []"
    then have "length gp = 0" using f(3) e by simp
    then show False using rs(2) by simp
  qed
  moreover have "2 ^ (min (length scales) (length weights) - 1) dvd H"
    using rs(3) f(3) e by simp
  moreover have "2 ^ (min (length scales) (length weights) - 1) dvd W"
    using rs(4) f(3) e by simp
  ultimately show ?thesis using f(1) by simp
qed

text \<open>
  Claim C10. A \<open>parallel_weights\<close> list strictly longer than \<open>guidance_scale\<close> gives
  exactly the result of the call whose \<open>parallel_weights\<close> is cut to the first
  \<open>len(guidance_scale)\<close> entries, be it a tensor or an error: the surplus entries are
  never read. Where the library returns the two pyramids of equal-shaped inputs, the
  mixing loop raises nothing and processes exactly \<open>len(guidance_scale)\<close> levels.
\<close>

theorem laplacian_guidance_surplus_weights:
  assumes "length scales < length weights"
  shows "laplacian_guidance blp pyrup pred_cond pred_uncond scales (Some weights)
           = laplacian_guidance blp pyrup pred_cond pred_uncond scales
               (Some (take (length scales) weights)) \<and>
         (blp_contract blp \<and> shape pred_uncond = shape pred_cond \<and>
          blp pred_cond (length scales) = Inr cond_pyramid \<and>
          blp pred_uncond (length scales) = Inr uncond_pyramid \<longrightarrow>
            (case guided_pyramid blp pred_cond pred_uncond scales (Some weights) of
               Inl e \<Rightarrow> False
             | Inr guided \<Rightarrow> length guided = length scales))"
proof (intro conjI impI)
  have "zip scales weights = zip scales (take (length scales) weights)"
    by (simp add: zip_take_length)
  then have "guided_pyramid blp pred_cond pred_uncond scales (Some weights)
           = guided_pyramid blp pred_cond pred_uncond scales (Some (take (length scales) weights))"
    by (simp add: guided_pyramid_def)
  then show "laplacian_guidance blp pyrup pred_cond pred_uncond scales (Some weights)
           = laplacian_guidance blp pyrup pred_cond pred_uncond scales
               (Some (take (length scales) weights))"
    by (simp add: laplacian_guidance_def)
next
  assume a: "blp_contract blp \<and> shape pred_uncond = shape pred_cond \<and>
          blp pred_cond (length scales) = Inr cond_pyramid \<and>
          blp pred_uncond (length scales) = Inr uncond_pyramid"
  obtain gp where
    "guided_pyramid blp pred_cond pred_uncond scales (Some weights) = Inr gp"
    "length gp = min (length scales) (length weights)"
    using guided_pyramid_facts[of blp pred_uncond pred_cond scales cond_pyramid uncond_pyramid weights] a
    by blast
  then show "case guided_pyramid blp pred_cond pred_uncond scales (Some weights) of
               Inl e \<Rightarrow> False
             | Inr guided \<Rightarrow> length guided = length scales"
    using assms by simp
qed

theorem laplacian_guidance_surplus_weights_witness:
  "length [2, 1 :: real] < length [1, 1, 5 :: real] \<and>
   blp_contract subsample_pyramid \<and>
   subsample_pyramid \<lparr>shape = [1, 1, 2, 2], dtype = Float32, data = [1, 0, 0, 0]\<rparr> (length [2, 1 :: real])
     = Inr [\<lparr>shape = [1, 1, 2, 2], dtype = Float32, data = [1, 0, 0, 0]\<rparr>,
            \<lparr>shape = [1, 1, 1, 1], dtype = Float32, data = [1]\<rparr>] \<and>
   subsample_pyramid \<lparr>shape = [1, 1, 2, 2], dtype = Float32, data = [0, 1, 0, 0]\<rparr> (length [2, 1 :: real])
     = Inr [\<lparr>shape = [1, 1, 2, 2], dtype = Float32, data = [0, 1, 0, 0]\<rparr>,
            \<lparr>shape = [1, 1, 1, 1], dtype = Float32, data = [0]\<rparr>] \<and>
   laplacian_guidance subsample_pyramid repeat_pyrup
       \<lparr>shape = [1, 1, 2, 2], dtype = Float32, data = [1, 0, 0, 0]\<rparr>
       \<lparr>shape = [1, 1, 2, 2], dtype = Float32, data = [0, 1, 0, 0]\<rparr>
       [2, 1] (Some [1, 1, 5])
     = Inr \<lparr>shape = [1, 1, 2, 2], dtype = Float32, data = [3, 0, 1, 1]\<rparr> \<and>
   laplacian_guidance subsample_pyramid repeat_pyrup
       \<lparr>shape = [1, 1, 2, 2], dtype = Float32, data = [1, 0, 0, 0]\<rparr>
       \<lparr>shape = [1, 1, 2, 2], dtype = Float32, data = [0, 1, 0, 0]\<rparr>
       [2, 1] (Some (take (length [2, 1 :: real]) [1, 1, 5]))
     = Inr \<lparr>shape = [1, 1, 2, 2], dtype = Float32, data = [3, 0, 1, 1]\<rparr> \<and>
   guided_pyramid subsample_pyramid
       \<lparr>shape = [1, 1, 2, 2], dtype = Float32, data = [1, 0, 0, 0]\<rparr>
       \<lparr>shape = [1, 1, 2, 2], dtype = Float32, data = [0, 1, 0, 0]\<rparr>
       [2, 1] (Some [1, 1, 5])
     = Inr [\<lparr>shape = [1, 1, 2, 2], dtype = Float32, data = [2, - 1, 0, 0]\<rparr>,
            \<lparr>shape = [1, 1, 1, 1], dtype = Float32, data = [1]\<rparr>]"
proof -
  let ?c = "\<lparr>shape = [1, 1, 2, 2], dtype = Float32, data = [1, 0, 0, 0]\<rparr>"
  let ?u = "\<lparr>shape = [1, 1, 2, 2], dtype = Float32, data = [0, 1, 0, 0]\<rparr>"
  have h: "length [2, 1 :: real] < length [1, 1, 5 :: real]" by simp
  have pc: "subsample_pyramid ?c (length [2, 1 :: real])
      = Inr [?c, \<lparr>shape = [1, 1, 1, 1], dtype = Float32, data = [1]\<rparr>]"
    by (simp add: subsample_pyramid_def tensor_eval_simps)
  have pu: "subsample_pyramid ?u (length [2, 1 :: real])
      = Inr [?u, \<lparr>shape = [1, 1, 1, 1], dtype = Float32, data = [0]\<rparr>]"
    by (simp add: subsample_pyramid_def tensor_eval_simps)
  have short: "laplacian_guidance subsample_pyramid repeat_pyrup ?c ?u [2, 1]
                 (Some (take (length [2, 1 :: real]) [1, 1, 5]))
      = Inr \<lparr>shape = [1, 1, 2, 2], dtype = Float32, data = [3, 0, 1, 1]\<rparr>"
    by (simp add: mixer_eval_simps project_eval_simps)
  have gp: "guided_pyramid subsample_pyramid ?c ?u [2, 1] (Some [1, 1, 5])
      = Inr [\<lparr>shape = [1, 1, 2, 2], dtype = Float32, data = [2, - 1, 0, 0]\<rparr>,
             \<lparr>shape = [1, 1, 1, 1], dtype = Float32, data = [1]\<rparr>]"
    by (simp add: mixer_eval_simps project_eval_simps)
  have "laplacian_guidance subsample_pyramid repeat_pyrup ?c ?u [2, 1] (Some [1, 1, 5])
      = laplacian_guidance subsample_pyramid repeat_pyrup ?c ?u [2, 1]
          (Some (take (length [2, 1 :: real]) [1, 1, 5]))"
    using laplacian_guidance_surplus_weights [OF h] by blast
  then show ?thesis using h pc pu short gp subsample_pyramid_contract by simp
qed

end
